theory Spec2Isabelle
  imports Main
begin

section \<open>Storage model\<close>

text \<open>
  The header \<^verbatim>\<open>linked_ptr.h\<close> defines two classes. \<^verbatim>\<open>details::linked_ptr_base\<close> is a node
  of an intrusive circular doubly linked list with the two pointers \<^verbatim>\<open>_left\<close> and \<^verbatim>\<open>_right\<close>;
  \<^verbatim>\<open>linked_ptr<T>\<close> holds a raw pointer \<^verbatim>\<open>_ptr\<close> and one such node, \<^verbatim>\<open>base\<close>.

  Objects live in an explicit store. A handle and the node it contains are identified by one
  address (every node of the program is the \<^verbatim>\<open>base\<close> member of exactly one handle), so a
  \<^verbatim>\<open>linked_ptr_base*\<close> is the address of the handle that contains the node. A resource
  reference \<^verbatim>\<open>T*\<close> is the address it holds, a natural number, \<open>0\<close> being \<^verbatim>\<open>nullptr\<close>.
  A conversion between the pointer types of two related resource types is a function on
  addresses. The resource types are the caller's, so an operation that converts a pointer
  takes the conversion as a parameter.
\<close>

type_synonym addr = nat
type_synonym ref = nat

definition nullptr :: ref where
  "nullptr = 0"

record linked_ptr_base =
  left :: addr
  right :: addr

record linked_ptr =
  ptr :: ref
  base :: linked_ptr_base

type_synonym heap = "addr \<Rightarrow> linked_ptr"

text \<open>
  The program state: the store, the set of addresses at which a handle has been constructed
  and not yet destroyed, and the log of the arguments of every \<^verbatim>\<open>delete\<close> expression that
  was evaluated, oldest first (\<^verbatim>\<open>delete nullptr\<close> is logged as \<open>0\<close>; it releases nothing).
\<close>

record state =
  mem :: heap
  live :: "addr set"
  deleted :: "ref list"

definition lft :: "heap \<Rightarrow> addr \<Rightarrow> addr" where
  "lft m a = left (base (m a))"

definition rgt :: "heap \<Rightarrow> addr \<Rightarrow> addr" where
  "rgt m a = right (base (m a))"

definition ptr_of :: "heap \<Rightarrow> addr \<Rightarrow> ref" where
  "ptr_of m a = ptr (m a)"

definition set_left :: "addr \<Rightarrow> addr \<Rightarrow> heap \<Rightarrow> heap" where
  "set_left a v m = m(a := (m a)\<lparr>base := (base (m a))\<lparr>left := v\<rparr>\<rparr>)"

definition set_right :: "addr \<Rightarrow> addr \<Rightarrow> heap \<Rightarrow> heap" where
  "set_right a v m = m(a := (m a)\<lparr>base := (base (m a))\<lparr>right := v\<rparr>\<rparr>)"

definition set_ptr :: "addr \<Rightarrow> ref \<Rightarrow> heap \<Rightarrow> heap" where
  "set_ptr a p m = m(a := (m a)\<lparr>ptr := p\<rparr>)"


section \<open>The ring node: \<^verbatim>\<open>details::linked_ptr_base\<close>\<close>

text \<open>Constructor (lines 16-19): \<^verbatim>\<open>_left = this; _right = this;\<close>\<close>

definition base_ctor :: "addr \<Rightarrow> heap \<Rightarrow> heap" where
  "base_ctor this m = set_right this this (set_left this this m)"

text \<open>\<^verbatim>\<open>unique()\<close> (lines 22-24): \<^verbatim>\<open>_left == this && _right == this\<close>.\<close>

definition base_unique :: "heap \<Rightarrow> addr \<Rightarrow> bool" where
  "base_unique m this \<longleftrightarrow> lft m this = this \<and> rgt m this = this"

text \<open>
  \<^verbatim>\<open>swap(other)\<close> (lines 26-38). \<^verbatim>\<open>std::swap\<close> of a field goes through a temporary. The
  chained assignment \<^verbatim>\<open>_right->_left = _left->_right = this\<close> stores \<^verbatim>\<open>this\<close> through
  \<^verbatim>\<open>_left->_right\<close> first and through \<^verbatim>\<open>_right->_left\<close> second, each pointer being read when
  its store is made.
\<close>

definition swap_right :: "addr \<Rightarrow> addr \<Rightarrow> heap \<Rightarrow> heap" where
  "swap_right a b m = (let tmp = rgt m a; m1 = set_right a (rgt m b) m in set_right b tmp m1)"

definition swap_left :: "addr \<Rightarrow> addr \<Rightarrow> heap \<Rightarrow> heap" where
  "swap_left a b m = (let tmp = lft m a; m1 = set_left a (lft m b) m in set_left b tmp m1)"

definition repoint :: "addr \<Rightarrow> heap \<Rightarrow> heap" where
  "repoint a m = (let m1 = set_right (lft m a) a m in set_left (rgt m1 a) a m1)"

definition base_swap :: "addr \<Rightarrow> addr \<Rightarrow> heap \<Rightarrow> heap" where
  "base_swap this other m =
     (if base_unique m this \<and> base_unique m other then m
      else
        let m1 = swap_right this other m;
            m2 = swap_left this other m1;
            m3 = (if \<not> base_unique m2 this then repoint this m2 else m2)
        in if \<not> base_unique m3 other then repoint other m3 else m3)"

text \<open>
  \<^verbatim>\<open>insert_after(rhs)\<close> (lines 42-48). The \<^verbatim>\<open>assert(unique())\<close> is a branch of the model: a
  failed assertion aborts, which is the result \<open>None\<close>.
\<close>

definition insert_after :: "addr \<Rightarrow> addr \<Rightarrow> heap \<Rightarrow> heap option" where
  "insert_after this rhs m =
     (if \<not> base_unique m this then None
      else
        let m1 = set_right this (rgt m rhs) m;
            m2 = set_left (rgt m1 this) this m1;
            m3 = set_left this rhs m2
        in Some (set_right rhs this m3))"

text \<open>
  \<^verbatim>\<open>erase()\<close> (lines 50-54). The last statement \<^verbatim>\<open>_right = _left = this\<close> stores into
  \<^verbatim>\<open>_left\<close> first.
\<close>

definition erase :: "addr \<Rightarrow> heap \<Rightarrow> heap" where
  "erase this m =
     (let m1 = set_left (rgt m this) (lft m this) m;
          m2 = set_right (lft m1 this) (rgt m1 this) m1;
          m3 = set_left this this m2
      in set_right this this m3)"


section \<open>The handle: \<^verbatim>\<open>linked_ptr<T>\<close>\<close>

text \<open>
  A constructor runs on storage at address \<open>this\<close>. The members are initialised in the
  order of their declaration: \<^verbatim>\<open>_ptr\<close> (to \<^verbatim>\<open>nullptr\<close>, or to the constructor's initialiser),
  then \<^verbatim>\<open>base\<close> by its constructor; the body follows.
\<close>

definition default_ctor :: "addr \<Rightarrow> state \<Rightarrow> state" where
  "default_ctor this s =
     s\<lparr>mem := base_ctor this (set_ptr this nullptr (mem s)), live := insert this (live s)\<rparr>"

text \<open>
  Construction from a raw pointer (lines 87-88): \<^verbatim>\<open>_ptr(static_cast<T*>(ptr))\<close>, empty body;
  \<open>p\<close> is the pointer after the conversion.
\<close>

definition raw_ctor :: "addr \<Rightarrow> ref \<Rightarrow> state \<Rightarrow> state" where
  "raw_ctor this p s =
     s\<lparr>mem := base_ctor this (set_ptr this p (mem s)), live := insert this (live s)\<rparr>"

text \<open>\<^verbatim>\<open>get()\<close> (lines 102-104) and \<^verbatim>\<open>unique()\<close> (lines 106-108).\<close>

definition get :: "state \<Rightarrow> addr \<Rightarrow> ref" where
  "get s this = ptr_of (mem s) this"

definition unique :: "state \<Rightarrow> addr \<Rightarrow> bool" where
  "unique s this = base_unique (mem s) this"

text \<open>
  Copy construction from a handle of the same type (lines 82-85):
  \<^verbatim>\<open>base.insert_after(rhs.base); _ptr = rhs.get();\<close>, and from a handle of a convertible
  type (lines 90-94) when the \<^verbatim>\<open>static_cast\<close> keeps the address.
\<close>

definition copy_ctor :: "addr \<Rightarrow> addr \<Rightarrow> state \<Rightarrow> state option" where
  "copy_ctor this rhs s =
     (let m0 = base_ctor this (set_ptr this nullptr (mem s)) in
      case insert_after this rhs m0 of
        None \<Rightarrow> None
      | Some m1 \<Rightarrow> Some (s\<lparr>mem := set_ptr this (ptr_of m1 rhs) m1, live := insert this (live s)\<rparr>))"

text \<open>
  Copy construction from a handle of a convertible type (lines 90-94) in general:
  \<^verbatim>\<open>base.insert_after(rhs.base); _ptr = static_cast<T*>(rhs.get());\<close>, with any conversion
  \<open>cast\<close> from \<^verbatim>\<open>Y*\<close> to \<^verbatim>\<open>T*\<close>.
\<close>

definition conv_copy_ctor :: "(ref \<Rightarrow> ref) \<Rightarrow> addr \<Rightarrow> addr \<Rightarrow> state \<Rightarrow> state option" where
  "conv_copy_ctor cast this rhs s =
     (let m0 = base_ctor this (set_ptr this nullptr (mem s)) in
      case insert_after this rhs m0 of
        None \<Rightarrow> None
      | Some m1 \<Rightarrow>
          Some (s\<lparr>mem := set_ptr this (cast (ptr_of m1 rhs)) m1, live := insert this (live s)\<rparr>))"

text \<open>
  Two conversions: the one that keeps the address (between a type and itself, or to a base
  class that starts where the object starts), and the one to a base class that lies \<open>off\<close>
  bytes into the object, as the second base of \<^verbatim>\<open>struct C : A, B\<close> does; a null pointer stays
  null.
\<close>

definition keep :: "ref \<Rightarrow> ref" where
  "keep p = p"

definition to_base :: "nat \<Rightarrow> ref \<Rightarrow> ref" where
  "to_base off p = (if p = nullptr then nullptr else p + off)"

text \<open>
  \<^verbatim>\<open>reset(Y* ptr)\<close> (lines 112-117) and \<^verbatim>\<open>reset()\<close> (lines 119-123):
  \<^verbatim>\<open>if (unique()) delete _ptr; else base.erase(); _ptr = ...;\<close>
\<close>

definition release_or_detach :: "addr \<Rightarrow> state \<Rightarrow> state" where
  "release_or_detach this s =
     (if unique s this then s\<lparr>deleted := deleted s @ [get s this]\<rparr>
      else s\<lparr>mem := erase this (mem s)\<rparr>)"

definition reset_ptr :: "addr \<Rightarrow> ref \<Rightarrow> state \<Rightarrow> state" where
  "reset_ptr this p s = (let s1 = release_or_detach this s in s1\<lparr>mem := set_ptr this p (mem s1)\<rparr>)"

definition reset :: "addr \<Rightarrow> state \<Rightarrow> state" where
  "reset this s = (let s1 = release_or_detach this s in s1\<lparr>mem := set_ptr this nullptr (mem s1)\<rparr>)"

text \<open>The destructor (lines 96-98) calls \<^verbatim>\<open>reset()\<close>; then the object's lifetime ends.\<close>

definition dtor :: "addr \<Rightarrow> state \<Rightarrow> state" where
  "dtor this s = (let s1 = reset this s in s1\<lparr>live := live s1 - {this}\<rparr>)"

text \<open>\<^verbatim>\<open>swap(other)\<close> (lines 125-131).\<close>

definition swap_ptr :: "addr \<Rightarrow> addr \<Rightarrow> heap \<Rightarrow> heap" where
  "swap_ptr a b m = (let tmp = ptr_of m a; m1 = set_ptr a (ptr_of m b) m in set_ptr b tmp m1)"

definition swap :: "addr \<Rightarrow> addr \<Rightarrow> state \<Rightarrow> state" where
  "swap this other s =
     (if get s this = get s other then s
      else s\<lparr>mem := swap_ptr this other (base_swap this other (mem s))\<rparr>)"

text \<open>\<^verbatim>\<open>explicit operator bool()\<close> (lines 152-154).\<close>

definition to_bool :: "state \<Rightarrow> addr \<Rightarrow> bool" where
  "to_bool s this \<longleftrightarrow> get s this \<noteq> nullptr"

text \<open>
  The comparison operators (lines 158-186). \<^verbatim>\<open>operator<\<close> casts both pointers to
  \<^verbatim>\<open>void*\<close> and compares them with \<^verbatim>\<open>std::less<>\<close>, the implementation's strict total
  order of addresses, here the order of the natural numbers; it reads the two addresses as
  they are stored, whatever the static types, and so does \<^verbatim>\<open>operator>=\<close>, its negation.

  \<^verbatim>\<open>operator==\<close> is \<^verbatim>\<open>lhs.get() == rhs.get()\<close>. For two handles of one static type this
  compares the two addresses as they are stored: \<open>op_eq\<close>, and \<open>op_ne\<close>, \<open>op_gt\<close>, \<open>op_le\<close>
  built on it.
\<close>

definition op_eq :: "state \<Rightarrow> addr \<Rightarrow> addr \<Rightarrow> bool" where
  "op_eq s lhs rhs \<longleftrightarrow> get s lhs = get s rhs"

definition op_ne :: "state \<Rightarrow> addr \<Rightarrow> addr \<Rightarrow> bool" where
  "op_ne s lhs rhs \<longleftrightarrow> \<not> op_eq s lhs rhs"

definition op_lt :: "state \<Rightarrow> addr \<Rightarrow> addr \<Rightarrow> bool" where
  "op_lt s lhs rhs \<longleftrightarrow> get s lhs < get s rhs"

definition op_gt :: "state \<Rightarrow> addr \<Rightarrow> addr \<Rightarrow> bool" where
  "op_gt s lhs rhs \<longleftrightarrow> \<not> op_lt s lhs rhs \<and> \<not> op_eq s lhs rhs"

definition op_le :: "state \<Rightarrow> addr \<Rightarrow> addr \<Rightarrow> bool" where
  "op_le s lhs rhs \<longleftrightarrow> \<not> op_gt s lhs rhs"


text \<open>
  For handles of two static types \<^verbatim>\<open>T\<close> and \<^verbatim>\<open>Y\<close>, the built-in \<^verbatim>\<open>==\<close> first converts
  both pointers to their common pointer type: \<open>cl\<close> converts the left pointer and \<open>cr\<close> the
  right one (one of them keeps the address). \<^verbatim>\<open>!=\<close>, \<^verbatim>\<open>>\<close> and \<^verbatim>\<open><=\<close> are built on this
  \<^verbatim>\<open>==\<close> as lines 163-181 say.
\<close>

definition op_eq_conv :: "(ref \<Rightarrow> ref) \<Rightarrow> (ref \<Rightarrow> ref) \<Rightarrow> state \<Rightarrow> addr \<Rightarrow> addr \<Rightarrow> bool" where
  "op_eq_conv cl cr s lhs rhs \<longleftrightarrow> cl (get s lhs) = cr (get s rhs)"

definition op_ne_conv :: "(ref \<Rightarrow> ref) \<Rightarrow> (ref \<Rightarrow> ref) \<Rightarrow> state \<Rightarrow> addr \<Rightarrow> addr \<Rightarrow> bool" where
  "op_ne_conv cl cr s lhs rhs \<longleftrightarrow> \<not> op_eq_conv cl cr s lhs rhs"

definition op_gt_conv :: "(ref \<Rightarrow> ref) \<Rightarrow> (ref \<Rightarrow> ref) \<Rightarrow> state \<Rightarrow> addr \<Rightarrow> addr \<Rightarrow> bool" where
  "op_gt_conv cl cr s lhs rhs \<longleftrightarrow> \<not> op_lt s lhs rhs \<and> \<not> op_eq_conv cl cr s lhs rhs"

definition op_le_conv :: "(ref \<Rightarrow> ref) \<Rightarrow> (ref \<Rightarrow> ref) \<Rightarrow> state \<Rightarrow> addr \<Rightarrow> addr \<Rightarrow> bool" where
  "op_le_conv cl cr s lhs rhs \<longleftrightarrow> \<not> op_gt_conv cl cr s lhs rhs"


text \<open>
  The class declares no copy assignment operator: \<^verbatim>\<open>operator=\<close> at lines 135-140 is a member
  template, and a template is never a copy assignment operator. For a right-hand side of the
  same type the compiler-generated assignment is therefore declared as well, and overload
  resolution prefers it to the template's specialisation. It assigns member by member:
  \<^verbatim>\<open>_ptr = rhs._ptr; base = rhs.base;\<close>, the second copying \<^verbatim>\<open>_left\<close> and \<^verbatim>\<open>_right\<close>.
\<close>

definition implicit_assign :: "addr \<Rightarrow> addr \<Rightarrow> state \<Rightarrow> state" where
  "implicit_assign this rhs s =
     (let m1 = set_ptr this (ptr_of (mem s) rhs) (mem s);
          m2 = set_left this (lft m1 rhs) m1
      in s\<lparr>mem := set_right this (rgt m2 rhs) m2\<rparr>)"

text \<open>
  The body of the template (lines 137-138) is \<^verbatim>\<open>reset(rhs.get()); insert_after(rhs);\<close>. No
  function \<^verbatim>\<open>insert_after\<close> that takes a handle is declared anywhere, so the template has no
  valid specialisation. \<open>assign_body\<close> is the body with the call read as
  \<^verbatim>\<open>base.insert_after(rhs.base)\<close>, the only \<^verbatim>\<open>insert_after\<close> there is.
\<close>

definition assign_body :: "addr \<Rightarrow> addr \<Rightarrow> state \<Rightarrow> state option" where
  "assign_body this rhs s =
     (let s1 = reset_ptr this (get s rhs) s in
      case insert_after this rhs (mem s1) of
        None \<Rightarrow> None
      | Some m1 \<Rightarrow> Some (s1\<lparr>mem := m1\<rparr>))"


section \<open>Rings and well-formed states\<close>

text \<open>The ring of a node: everything reachable from it along \<^verbatim>\<open>_right\<close> and \<^verbatim>\<open>_left\<close>.\<close>

inductive_set ring :: "heap \<Rightarrow> addr \<Rightarrow> addr set" for m :: heap and a :: addr where
  ring_self: "a \<in> ring m a"
| ring_right: "x \<in> ring m a \<Longrightarrow> rgt m x \<in> ring m a"
| ring_left: "x \<in> ring m a \<Longrightarrow> lft m x \<in> ring m a"

text \<open>
  A state is well formed when the neighbours of every live handle are live and \<^verbatim>\<open>_left\<close> and
  \<^verbatim>\<open>_right\<close> are inverse to each other on the live handles.
\<close>

definition wf_state :: "state \<Rightarrow> bool" where
  "wf_state s \<longleftrightarrow>
     (\<forall>a \<in> live s. lft (mem s) a \<in> live s \<and> rgt (mem s) a \<in> live s
        \<and> lft (mem s) (rgt (mem s) a) = a \<and> rgt (mem s) (lft (mem s) a) = a)"


section \<open>Sequences of handle operations\<close>

datatype operation =
    Default addr
  | Raw addr ref
  | Copy addr addr
  | Reset addr
  | ResetPtr addr ref
  | Swap addr addr
  | Dtor addr

fun exec :: "operation \<Rightarrow> state \<Rightarrow> state option" where
  "exec (Default a) s = Some (default_ctor a s)"
| "exec (Raw a p) s = Some (raw_ctor a p s)"
| "exec (Copy a b) s = copy_ctor a b s"
| "exec (Reset a) s = Some (reset a s)"
| "exec (ResetPtr a p) s = Some (reset_ptr a p s)"
| "exec (Swap a b) s = Some (swap a b s)"
| "exec (Dtor a) s = Some (dtor a s)"

fun run :: "operation list \<Rightarrow> state \<Rightarrow> state option" where
  "run [] s = Some s"
| "run (x # xs) s = (case exec x s of None \<Rightarrow> None | Some s' \<Rightarrow> run xs s')"

text \<open>The state before any handle exists.\<close>

definition init :: state where
  "init = \<lparr>mem = (\<lambda>_. \<lparr>ptr = 0, base = \<lparr>left = 0, right = 0\<rparr>\<rparr>), live = {}, deleted = []\<rparr>"


section \<open>Example states\<close>

definition node :: "ref \<Rightarrow> addr \<Rightarrow> addr \<Rightarrow> linked_ptr" where
  "node p l r = \<lparr>ptr = p, base = \<lparr>left = l, right = r\<rparr>\<rparr>"

text \<open>
  Handles \<open>2\<close> and \<open>3\<close> share the resource \<open>10\<close> in a ring of two; handle \<open>4\<close> is the sole
  owner of the resource \<open>20\<close>.
\<close>

definition example_heap :: heap where
  "example_heap = (\<lambda>_. node 0 0 0)(2 := node 10 3 3, 3 := node 10 2 2, 4 := node 20 4 4)"

definition example_state :: state where
  "example_state = \<lparr>mem = example_heap, live = {2, 3, 4}, deleted = []\<rparr>"

text \<open>
  Handle \<open>2\<close>, a \<^verbatim>\<open>linked_ptr<C>\<close>, owns an object at the address \<open>16\<close>; handle \<open>3\<close>, a
  \<^verbatim>\<open>linked_ptr<B>\<close> copied from it, holds the address \<open>24\<close> of the object's base \<^verbatim>\<open>B\<close>,
  which lies \<open>8\<close> bytes into the object.
\<close>

definition typed_example_state :: state where
  "typed_example_state =
     \<lparr>mem = (\<lambda>_. node 0 0 0)(2 := node 16 3 3, 3 := node 24 2 2), live = {2, 3}, deleted = []\<rparr>"


section \<open>Reading and writing the store\<close>

lemma lft_set_left [simp]: "lft (set_left a v m) b = (if b = a then v else lft m b)"
  by (simp add: lft_def set_left_def)

lemma lft_set_right [simp]: "lft (set_right a v m) b = lft m b"
  by (simp add: lft_def set_right_def)

lemma lft_set_ptr [simp]: "lft (set_ptr a p m) b = lft m b"
  by (simp add: lft_def set_ptr_def)

lemma rgt_set_left [simp]: "rgt (set_left a v m) b = rgt m b"
  by (simp add: rgt_def set_left_def)

lemma rgt_set_right [simp]: "rgt (set_right a v m) b = (if b = a then v else rgt m b)"
  by (simp add: rgt_def set_right_def)

lemma rgt_set_ptr [simp]: "rgt (set_ptr a p m) b = rgt m b"
  by (simp add: rgt_def set_ptr_def)

lemma ptr_of_set_left [simp]: "ptr_of (set_left a v m) b = ptr_of m b"
  by (simp add: ptr_of_def set_left_def)

lemma ptr_of_set_right [simp]: "ptr_of (set_right a v m) b = ptr_of m b"
  by (simp add: ptr_of_def set_right_def)

lemma ptr_of_set_ptr [simp]: "ptr_of (set_ptr a p m) b = (if b = a then p else ptr_of m b)"
  by (simp add: ptr_of_def set_ptr_def)

lemma other_set_left [simp]: "x \<noteq> a \<Longrightarrow> set_left a v m x = m x"
  by (simp add: set_left_def)

lemma other_set_right [simp]: "x \<noteq> a \<Longrightarrow> set_right a v m x = m x"
  by (simp add: set_right_def)

lemma other_set_ptr [simp]: "x \<noteq> a \<Longrightarrow> set_ptr a v m x = m x"
  by (simp add: set_ptr_def)

text \<open>Two stores are equal when they agree on the three fields of every object.\<close>

lemma heap_eqI:
  assumes "\<And>a. lft m a = lft m' a" and "\<And>a. rgt m a = rgt m' a" and "\<And>a. ptr_of m a = ptr_of m' a"
  shows "m = m'"
proof
  fix a
  have "base (m a) = base (m' a)"
    using assms(1) [of a] assms(2) [of a] by (simp add: lft_def rgt_def)
  moreover have "ptr (m a) = ptr (m' a)"
    using assms(3) [of a] by (simp add: ptr_of_def)
  ultimately show "m a = m' a" by simp
qed


lemma lft_example [simp]:
  "lft example_heap 2 = 3" "lft example_heap 3 = 2" "lft example_heap 4 = 4"
  by (simp_all add: lft_def example_heap_def node_def)

lemma rgt_example [simp]:
  "rgt example_heap 2 = 3" "rgt example_heap 3 = 2" "rgt example_heap 4 = 4"
  by (simp_all add: rgt_def example_heap_def node_def)

lemma ptr_of_example [simp]:
  "ptr_of example_heap 2 = 10" "ptr_of example_heap 3 = 10" "ptr_of example_heap 4 = 20"
  by (simp_all add: ptr_of_def example_heap_def node_def)


section \<open>The ring operations, field by field\<close>

lemma lft_erase:
  "lft (erase h m) x = (if x = h then h else if x = rgt m h then lft m h else lft m x)"
  by (simp add: erase_def Let_def)

lemma rgt_erase:
  "rgt (erase h m) x = (if x = h then h else if x = lft m h then rgt m h else rgt m x)"
  by (simp add: erase_def Let_def)

lemma ptr_of_erase: "ptr_of (erase h m) x = ptr_of m x"
  by (simp add: erase_def Let_def)

lemma base_unique_erase: "base_unique (erase h m) h"
  by (simp add: base_unique_def lft_erase rgt_erase)

lemma insert_after_Some: "base_unique m this \<Longrightarrow> \<exists>m'. insert_after this rhs m = Some m'"
  by (simp add: insert_after_def Let_def)

lemma lft_insert_after:
  "insert_after this rhs m = Some m' \<Longrightarrow>
   lft m' x = (if x = this then rhs else if x = rgt m rhs then this else lft m x)"
  by (auto simp: insert_after_def Let_def split: if_splits)

lemma rgt_insert_after:
  "insert_after this rhs m = Some m' \<Longrightarrow>
   rgt m' x = (if x = rhs then this else if x = this then rgt m rhs else rgt m x)"
  by (auto simp: insert_after_def Let_def split: if_splits)

lemma ptr_of_insert_after: "insert_after this rhs m = Some m' \<Longrightarrow> ptr_of m' x = ptr_of m x"
  by (auto simp: insert_after_def Let_def split: if_splits)


lemma lft_base_ctor [simp]: "lft (base_ctor a m) x = (if x = a then a else lft m x)"
  by (simp add: base_ctor_def)

lemma rgt_base_ctor [simp]: "rgt (base_ctor a m) x = (if x = a then a else rgt m x)"
  by (simp add: base_ctor_def)

lemma ptr_of_base_ctor [simp]: "ptr_of (base_ctor a m) x = ptr_of m x"
  by (simp add: base_ctor_def)

lemma base_unique_base_ctor: "base_unique (base_ctor a m) a"
  by (simp add: base_unique_def)

text \<open>What copy construction stores, field by field.\<close>

lemma copy_ctor_fields:
  assumes "h2 \<noteq> h1"
  shows "\<exists>s'. copy_ctor h2 h1 s = Some s'
    \<and> (\<forall>x. lft (mem s') x = (if x = h2 then h1 else if x = rgt (mem s) h1 then h2 else lft (mem s) x))
    \<and> (\<forall>x. rgt (mem s') x = (if x = h1 then h2 else if x = h2 then rgt (mem s) h1 else rgt (mem s) x))
    \<and> (\<forall>x. ptr_of (mem s') x = (if x = h2 then ptr_of (mem s) h1 else ptr_of (mem s) x))
    \<and> live s' = insert h2 (live s) \<and> deleted s' = deleted s"
proof -
  let ?m0 = "base_ctor h2 (set_ptr h2 nullptr (mem s))"
  obtain m1 where m1: "insert_after h2 h1 ?m0 = Some m1"
    using insert_after_Some [OF base_unique_base_ctor] by blast
  have s': "copy_ctor h2 h1 s = Some (s\<lparr>mem := set_ptr h2 (ptr_of m1 h1) m1, live := insert h2 (live s)\<rparr>)"
    using m1 by (simp add: copy_ctor_def)
  show ?thesis
    unfolding s' using assms
    by (simp add: lft_insert_after [OF m1] rgt_insert_after [OF m1] ptr_of_insert_after [OF m1])
qed

text \<open>
  The converting constructor stores the same links and the converted reference; with the
  conversion that keeps the address it is the copy constructor.
\<close>

lemma conv_copy_ctor_keep: "conv_copy_ctor keep this rhs s = copy_ctor this rhs s"
  by (simp add: conv_copy_ctor_def copy_ctor_def keep_def cong: option.case_cong)

lemma conv_copy_ctor_fields:
  assumes "h2 \<noteq> h1"
  shows "\<exists>s'. conv_copy_ctor cast h2 h1 s = Some s'
    \<and> (\<forall>x. lft (mem s') x = (if x = h2 then h1 else if x = rgt (mem s) h1 then h2 else lft (mem s) x))
    \<and> (\<forall>x. rgt (mem s') x = (if x = h1 then h2 else if x = h2 then rgt (mem s) h1 else rgt (mem s) x))
    \<and> (\<forall>x. ptr_of (mem s') x = (if x = h2 then cast (ptr_of (mem s) h1) else ptr_of (mem s) x))
    \<and> live s' = insert h2 (live s) \<and> deleted s' = deleted s"
proof -
  let ?m0 = "base_ctor h2 (set_ptr h2 nullptr (mem s))"
  obtain m1 where m1: "insert_after h2 h1 ?m0 = Some m1"
    using insert_after_Some [OF base_unique_base_ctor] by blast
  have s': "conv_copy_ctor cast h2 h1 s
      = Some (s\<lparr>mem := set_ptr h2 (cast (ptr_of m1 h1)) m1, live := insert h2 (live s)\<rparr>)"
    using m1 by (simp add: conv_copy_ctor_def)
  show ?thesis
    unfolding s' using assms
    by (simp add: lft_insert_after [OF m1] rgt_insert_after [OF m1] ptr_of_insert_after [OF m1])
qed

section \<open>Rings\<close>

lemma ring_closed:
  assumes "a \<in> S" and "\<And>x. x \<in> S \<Longrightarrow> rgt m x \<in> S" and "\<And>x. x \<in> S \<Longrightarrow> lft m x \<in> S"
  shows "ring m a \<subseteq> S"
proof
  fix x assume "x \<in> ring m a"
  then show "x \<in> S" by induction (auto intro: assms)
qed

lemma ring_trans: "y \<in> ring m x \<Longrightarrow> x \<in> ring m z \<Longrightarrow> y \<in> ring m z"
  by (induction rule: ring.induct) (auto intro: ring.intros)

lemma base_unique_iff_ring: "base_unique m a \<longleftrightarrow> ring m a = {a}"
proof
  assume u: "base_unique m a"
  have "ring m a \<subseteq> {a}"
    by (rule ring_closed) (use u in \<open>auto simp: base_unique_def\<close>)
  then show "ring m a = {a}" using ring_self [of a m] by blast
next
  assume r: "ring m a = {a}"
  have "rgt m a \<in> ring m a" "lft m a \<in> ring m a"
    by (auto intro: ring.intros)
  with r show "base_unique m a" by (simp add: base_unique_def)
qed

lemma ring_cong:
  assumes "\<And>x. x \<in> ring m a \<Longrightarrow> lft m' x = lft m x \<and> rgt m' x = rgt m x"
  shows "ring m' a = ring m a"
proof
  show "ring m' a \<subseteq> ring m a"
  proof
    fix x assume "x \<in> ring m' a"
    then show "x \<in> ring m a"
    proof induction
      case ring_self show ?case by (rule ring.ring_self)
    next
      case (ring_right x)
      then show ?case using assms [of x] ring.ring_right [of x m a] by simp
    next
      case (ring_left x)
      then show ?case using assms [of x] ring.ring_left [of x m a] by simp
    qed
  qed
  show "ring m a \<subseteq> ring m' a"
  proof
    fix x assume "x \<in> ring m a"
    then show "x \<in> ring m' a"
    proof induction
      case ring_self show ?case by (rule ring.ring_self)
    next
      case (ring_right x)
      then show ?case using assms [of x] ring.ring_right [of x m' a] by simp
    next
      case (ring_left x)
      then show ?case using assms [of x] ring.ring_left [of x m' a] by simp
    qed
  qed
qed

lemma ring_live: "wf_state s \<Longrightarrow> a \<in> live s \<Longrightarrow> ring (mem s) a \<subseteq> live s"
  by (rule ring_closed) (auto simp: wf_state_def)

lemma ring_sym:
  assumes "wf_state s" and "a \<in> live s" and "x \<in> ring (mem s) a"
  shows "a \<in> ring (mem s) x"
  using assms(3)
proof induction
  case ring_self show ?case by (rule ring.ring_self)
next
  case (ring_right x)
  have "x \<in> live s" using ring_live [OF assms(1,2)] ring_right.hyps by blast
  then have "lft (mem s) (rgt (mem s) x) = x" using assms(1) by (simp add: wf_state_def)
  then have "x \<in> ring (mem s) (rgt (mem s) x)"
    using ring.ring_left [OF ring.ring_self, of "mem s" "rgt (mem s) x"] by simp
  with ring_right.IH show ?case by (rule ring_trans)
next
  case (ring_left x)
  have "x \<in> live s" using ring_live [OF assms(1,2)] ring_left.hyps by blast
  then have "rgt (mem s) (lft (mem s) x) = x" using assms(1) by (simp add: wf_state_def)
  then have "x \<in> ring (mem s) (lft (mem s) x)"
    using ring.ring_right [OF ring.ring_self, of "mem s" "lft (mem s) x"] by simp
  with ring_left.IH show ?case by (rule ring_trans)
qed

lemma ring_eq:
  assumes "wf_state s" and "a \<in> live s" and "x \<in> ring (mem s) a"
  shows "ring (mem s) x = ring (mem s) a"
proof -
  have "a \<in> ring (mem s) x" using assms by (rule ring_sym)
  then show ?thesis using assms(3) by (auto intro: ring_trans)
qed


lemma ring_pair:
  assumes "lft m a = b" "rgt m a = b" "lft m b = a" "rgt m b = a"
  shows "ring m a = {a, b}"
proof
  show "ring m a \<subseteq> {a, b}"
    by (rule ring_closed) (use assms in auto)
  have "b \<in> ring m a" using ring.ring_right [OF ring.ring_self, of m a] assms by simp
  then show "{a, b} \<subseteq> ring m a" by (simp add: ring.ring_self)
qed

section \<open>Well-formed states and the ring operations\<close>

lemma wf_stateD:
  assumes "wf_state s" and "a \<in> live s"
  shows "lft (mem s) a \<in> live s" and "rgt (mem s) a \<in> live s"
    and "lft (mem s) (rgt (mem s) a) = a" and "rgt (mem s) (lft (mem s) a) = a"
  using assms by (simp_all add: wf_state_def)

lemma wf_rgt_eq:
  assumes "wf_state s" and "a \<in> live s" and "b \<in> live s" and "rgt (mem s) a = rgt (mem s) b"
  shows "a = b"
  using wf_stateD(3) [OF assms(1,2)] wf_stateD(3) [OF assms(1,3)] assms(4) by metis

lemma wf_lft_eq:
  assumes "wf_state s" and "a \<in> live s" and "b \<in> live s" and "lft (mem s) a = lft (mem s) b"
  shows "a = b"
  using wf_stateD(4) [OF assms(1,2)] wf_stateD(4) [OF assms(1,3)] assms(4) by metis

lemma wf_rgt_is:
  assumes "wf_state s" and "a \<in> live s" and "rgt (mem s) a = h"
  shows "a = lft (mem s) h"
  using wf_stateD(3) [OF assms(1,2)] assms(3) by metis

lemma wf_lft_is:
  assumes "wf_state s" and "a \<in> live s" and "lft (mem s) a = h"
  shows "a = rgt (mem s) h"
  using wf_stateD(4) [OF assms(1,2)] assms(3) by metis

lemma wf_erase:
  assumes wf: "wf_state s" and h: "h \<in> live s"
  shows "wf_state (s\<lparr>mem := erase h (mem s)\<rparr>)"
  unfolding wf_state_def
proof
  fix a assume a: "a \<in> live (s\<lparr>mem := erase h (mem s)\<rparr>)"
  then have al: "a \<in> live s" by simp
  note A = wf_stateD [OF wf al] and H = wf_stateD [OF wf h]
  let ?m = "mem s"
  have 1: "lft (erase h ?m) a \<in> live s" using A H h by (simp add: lft_erase)
  have 2: "rgt (erase h ?m) a \<in> live s" using A H h by (simp add: rgt_erase)
  have 3: "lft (erase h ?m) (rgt (erase h ?m) a) = a"
    using A H wf_rgt_eq [OF wf al h] wf_rgt_is [OF wf al]
    by (auto simp: lft_erase rgt_erase)
  have 4: "rgt (erase h ?m) (lft (erase h ?m) a) = a"
    using A H wf_lft_eq [OF wf al h] wf_lft_is [OF wf al]
    by (auto simp: lft_erase rgt_erase)
  from 1 2 3 4
  show "lft (mem (s\<lparr>mem := erase h (mem s)\<rparr>)) a \<in> live (s\<lparr>mem := erase h (mem s)\<rparr>) \<and>
        rgt (mem (s\<lparr>mem := erase h (mem s)\<rparr>)) a \<in> live (s\<lparr>mem := erase h (mem s)\<rparr>) \<and>
        lft (mem (s\<lparr>mem := erase h (mem s)\<rparr>)) (rgt (mem (s\<lparr>mem := erase h (mem s)\<rparr>)) a) = a \<and>
        rgt (mem (s\<lparr>mem := erase h (mem s)\<rparr>)) (lft (mem (s\<lparr>mem := erase h (mem s)\<rparr>)) a) = a"
    by simp
qed

lemma ring_erase_other:
  assumes wf: "wf_state s" and h: "h \<in> live s" and x: "x \<in> live s" and nh: "h \<notin> ring (mem s) x"
  shows "ring (erase h (mem s)) x = ring (mem s) x"
proof (rule ring_cong)
  fix y assume y: "y \<in> ring (mem s) x"
  note H = wf_stateD [OF wf h]
  have yh: "y \<noteq> h" using y nh by blast
  have "y \<noteq> rgt (mem s) h"
  proof
    assume "y = rgt (mem s) h"
    then have "lft (mem s) y = h" using H by simp
    then show False using ring.ring_left [OF y] nh by simp
  qed
  moreover have "y \<noteq> lft (mem s) h"
  proof
    assume "y = lft (mem s) h"
    then have "rgt (mem s) y = h" using H by simp
    then show False using ring.ring_right [OF y] nh by simp
  qed
  ultimately show "lft (erase h (mem s)) y = lft (mem s) y \<and> rgt (erase h (mem s)) y = rgt (mem s) y"
    using yh by (simp add: lft_erase rgt_erase)
qed

lemma ring_erase_member:
  assumes wf: "wf_state s" and h: "h \<in> live s" and x: "x \<in> ring (mem s) h" and xh: "x \<noteq> h"
  shows "ring (erase h (mem s)) x = ring (mem s) h - {h}"
proof
  let ?m = "mem s" and ?m' = "erase h (mem s)"
  note H = wf_stateD [OF wf h]
  have sub: "ring ?m h \<subseteq> live s" using wf h by (rule ring_live)
  have nu: "rgt ?m h \<noteq> h \<and> lft ?m h \<noteq> h"
  proof -
    have "\<not> base_unique ?m h" using x xh by (auto simp: base_unique_iff_ring)
    then show ?thesis using H by (auto simp: base_unique_def)
  qed
  show "ring ?m' x \<subseteq> ring ?m h - {h}"
  proof (rule ring_closed)
    show "x \<in> ring ?m h - {h}" using x xh by simp
  next
    fix y assume y: "y \<in> ring ?m h - {h}"
    then have yl: "y \<in> live s" using sub by blast
    have "rgt ?m y \<in> ring ?m h" "rgt ?m h \<in> ring ?m h"
      using y by (auto intro: ring.intros)
    then show "rgt ?m' y \<in> ring ?m h - {h}"
      using y nu wf_rgt_is [OF wf yl] by (auto simp: rgt_erase)
  next
    fix y assume y: "y \<in> ring ?m h - {h}"
    then have yl: "y \<in> live s" using sub by blast
    have "lft ?m y \<in> ring ?m h" "lft ?m h \<in> ring ?m h"
      using y by (auto intro: ring.intros)
    then show "lft ?m' y \<in> ring ?m h - {h}"
      using y nu wf_lft_is [OF wf yl] by (auto simp: lft_erase)
  qed
  have xl: "x \<in> live s" using x sub by blast
  have eq: "ring ?m x = ring ?m h" using wf h x by (rule ring_eq)
  have P: "(y \<noteq> h \<longrightarrow> y \<in> ring ?m' x) \<and> (y = h \<longrightarrow> rgt ?m h \<in> ring ?m' x \<and> lft ?m h \<in> ring ?m' x)"
    if "y \<in> ring ?m x" for y
    using that
  proof induction
    case ring_self
    show ?case using xh by (simp add: ring.ring_self)
  next
    case (ring_right y)
    have yl: "y \<in> live s" using ring_right.hyps eq sub by blast
    show ?case
    proof (cases "y = h")
      case True
      then show ?thesis using ring_right.IH nu by simp
    next
      case False
      then have y': "y \<in> ring ?m' x" using ring_right.IH by simp
      show ?thesis
      proof (cases "rgt ?m y = h")
        case True
        then have "y = lft ?m h" using wf_rgt_is [OF wf yl] by simp
        moreover from this have "rgt ?m' y = rgt ?m h" using False by (simp add: rgt_erase)
        ultimately show ?thesis using True y' ring.ring_right [OF y'] by simp
      next
        case F2: False
        then have "y \<noteq> lft ?m h" using H by auto
        then have "rgt ?m' y = rgt ?m y" using False by (simp add: rgt_erase)
        then show ?thesis using F2 ring.ring_right [OF y'] by simp
      qed
    qed
  next
    case (ring_left y)
    have yl: "y \<in> live s" using ring_left.hyps eq sub by blast
    show ?case
    proof (cases "y = h")
      case True
      then show ?thesis using ring_left.IH nu by simp
    next
      case False
      then have y': "y \<in> ring ?m' x" using ring_left.IH by simp
      show ?thesis
      proof (cases "lft ?m y = h")
        case True
        then have "y = rgt ?m h" using wf_lft_is [OF wf yl] by simp
        moreover from this have "lft ?m' y = lft ?m h" using False by (simp add: lft_erase)
        ultimately show ?thesis using True y' ring.ring_left [OF y'] by simp
      next
        case F2: False
        then have "y \<noteq> rgt ?m h" using H by auto
        then have "lft ?m' y = lft ?m y" using False by (simp add: lft_erase)
        then show ?thesis using F2 ring.ring_left [OF y'] by simp
      qed
    qed
  qed
  show "ring ?m h - {h} \<subseteq> ring ?m' x"
    using P eq by blast
qed


text \<open>A handle constructed on fresh storage leaves every existing ring alone.\<close>

lemma wf_ctor:
  assumes wf: "wf_state s" and a: "a \<notin> live s"
  shows "wf_state (s\<lparr>mem := base_ctor a (set_ptr a p (mem s)), live := insert a (live s)\<rparr>)"
proof -
  have "\<And>b. b \<in> live s \<Longrightarrow> lft (mem s) b \<noteq> a \<and> rgt (mem s) b \<noteq> a"
    using wf a by (auto simp: wf_state_def)
  then show ?thesis using wf a by (auto simp: wf_state_def)
qed

lemma ring_ctor_other:
  assumes wf: "wf_state s" and a: "a \<notin> live s" and b: "b \<in> live s"
  shows "ring (base_ctor a (set_ptr a p (mem s))) b = ring (mem s) b"
proof (rule ring_cong)
  fix x assume "x \<in> ring (mem s) b"
  then have "x \<in> live s" using ring_live [OF wf b] by blast
  then have "x \<noteq> a" using a by blast
  then show "lft (base_ctor a (set_ptr a p (mem s))) x = lft (mem s) x \<and>
             rgt (base_ctor a (set_ptr a p (mem s))) x = rgt (mem s) x"
    by simp
qed

text \<open>Copy construction on fresh storage adds the new node to the ring of its source.\<close>

lemma wf_copy_ctor:
  assumes wf: "wf_state s" and h1: "h1 \<in> live s" and h2: "h2 \<notin> live s"
    and c: "copy_ctor h2 h1 s = Some s'"
  shows "wf_state s'"
proof -
  have ne: "h2 \<noteq> h1" using h1 h2 by blast
  from copy_ctor_fields [OF ne, of s] c
  have L: "\<And>x. lft (mem s') x = (if x = h2 then h1 else if x = rgt (mem s) h1 then h2 else lft (mem s) x)"
    and R: "\<And>x. rgt (mem s') x = (if x = h1 then h2 else if x = h2 then rgt (mem s) h1 else rgt (mem s) x)"
    and live: "live s' = insert h2 (live s)"
    by auto
  note H = wf_stateD [OF wf h1]
  have fresh: "\<And>b. b \<in> live s \<Longrightarrow> lft (mem s) b \<noteq> h2 \<and> rgt (mem s) b \<noteq> h2 \<and> b \<noteq> h2"
    using wf h2 by (auto simp: wf_state_def)
  show ?thesis
    unfolding wf_state_def
  proof
    fix a assume "a \<in> live s'"
    then consider "a = h2" | "a \<in> live s" using live by auto
    then show "lft (mem s') a \<in> live s' \<and> rgt (mem s') a \<in> live s' \<and>
        lft (mem s') (rgt (mem s') a) = a \<and> rgt (mem s') (lft (mem s') a) = a"
    proof cases
      case 1
      then show ?thesis using H h1 ne fresh [OF h1] fresh [OF H(2)] by (simp add: L R live)
    next
      case 2
      note A = wf_stateD [OF wf 2]
      have a2: "a \<noteq> h2" using 2 h2 by blast
      have e1: "rgt (mem s) a = rgt (mem s) h1 \<Longrightarrow> a = h1" using wf_rgt_eq [OF wf 2 h1] .
      have e2: "lft (mem s) a = h1 \<Longrightarrow> a = rgt (mem s) h1" using wf_lft_is [OF wf 2] .
      have "lft (mem s') a \<in> live s'" using A h1 a2 by (simp add: L live)
      moreover have "rgt (mem s') a \<in> live s'" using A h1 a2 by (simp add: R live)
      moreover have "lft (mem s') (rgt (mem s') a) = a"
      proof (cases "a = h1")
        case True
        then show ?thesis using ne by (simp add: L R)
      next
        case False
        then have "rgt (mem s) a \<noteq> rgt (mem s) h1" using e1 by blast
        moreover have "rgt (mem s) a \<noteq> h2" using fresh [OF 2] by simp
        ultimately show ?thesis using False a2 A(3) by (simp add: L R)
      qed
      moreover have "rgt (mem s') (lft (mem s') a) = a"
      proof (cases "a = rgt (mem s) h1")
        case True
        then show ?thesis using a2 ne by (simp add: L R)
      next
        case False
        then have "lft (mem s) a \<noteq> h1" using e2 by blast
        moreover have "lft (mem s) a \<noteq> h2" using fresh [OF 2] by simp
        ultimately show ?thesis using False a2 A(4) by (simp add: L R)
      qed
      ultimately show ?thesis by simp
    qed
  qed
qed

lemma ring_copy_ctor:
  assumes wf: "wf_state s" and h1: "h1 \<in> live s" and h2: "h2 \<notin> live s"
    and c: "copy_ctor h2 h1 s = Some s'"
  shows "ring (mem s') h1 = insert h2 (ring (mem s) h1)"
proof
  have ne: "h2 \<noteq> h1" using h1 h2 by blast
  from copy_ctor_fields [OF ne, of s] c
  have L: "\<And>x. lft (mem s') x = (if x = h2 then h1 else if x = rgt (mem s) h1 then h2 else lft (mem s) x)"
    and R: "\<And>x. rgt (mem s') x = (if x = h1 then h2 else if x = h2 then rgt (mem s) h1 else rgt (mem s) x)"
    by auto
  note H = wf_stateD [OF wf h1]
  have sub: "ring (mem s) h1 \<subseteq> live s" using wf h1 by (rule ring_live)
  have r1: "rgt (mem s) h1 \<in> ring (mem s) h1" by (intro ring.intros)
  show "ring (mem s') h1 \<subseteq> insert h2 (ring (mem s) h1)"
  proof (rule ring_closed)
    show "h1 \<in> insert h2 (ring (mem s) h1)" by (simp add: ring.ring_self)
  next
    fix x assume "x \<in> insert h2 (ring (mem s) h1)"
    then show "rgt (mem s') x \<in> insert h2 (ring (mem s) h1)"
      using r1 by (auto simp: R intro: ring.intros)
  next
    fix x assume "x \<in> insert h2 (ring (mem s) h1)"
    then show "lft (mem s') x \<in> insert h2 (ring (mem s) h1)"
      by (auto simp: L intro: ring.intros)
  qed
  have n2: "h2 \<in> ring (mem s') h1"
    using ring.ring_right [OF ring.ring_self, of "mem s'" h1] by (simp add: R)
  have nr: "rgt (mem s) h1 \<in> ring (mem s') h1"
    using ring.ring_right [OF n2] ne by (simp add: R)
  have "ring (mem s) h1 \<subseteq> ring (mem s') h1 \<inter> live s"
  proof (rule ring_closed)
    show "h1 \<in> ring (mem s') h1 \<inter> live s" using h1 by (simp add: ring.ring_self)
  next
    fix x assume x: "x \<in> ring (mem s') h1 \<inter> live s"
    then have xl: "x \<in> live s" and x2: "x \<noteq> h2" using h2 by auto
    have "rgt (mem s') x \<in> ring (mem s') h1" using x by (auto intro: ring.intros)
    then have "rgt (mem s) x \<in> ring (mem s') h1" using nr x2 by (auto simp: R split: if_splits)
    then show "rgt (mem s) x \<in> ring (mem s') h1 \<inter> live s" using wf_stateD(2) [OF wf xl] by simp
  next
    fix x assume x: "x \<in> ring (mem s') h1 \<inter> live s"
    then have xl: "x \<in> live s" and x2: "x \<noteq> h2" using h2 by auto
    have "lft (mem s') x \<in> ring (mem s') h1" using x by (auto intro: ring.intros)
    then have "lft (mem s) x \<in> ring (mem s') h1"
      using x2 H(3) ring.ring_self [of h1 "mem s'"] by (auto simp: L split: if_splits)
    then show "lft (mem s) x \<in> ring (mem s') h1 \<inter> live s" using wf_stateD(1) [OF wf xl] by simp
  qed
  then show "insert h2 (ring (mem s) h1) \<subseteq> ring (mem s') h1" using n2 by blast
qed

lemma ring_copy_ctor_other:
  assumes wf: "wf_state s" and h1: "h1 \<in> live s" and h2: "h2 \<notin> live s"
    and c: "copy_ctor h2 h1 s = Some s'" and x: "x \<in> live s" and nx: "x \<notin> ring (mem s) h1"
  shows "ring (mem s') x = ring (mem s) x"
proof (rule ring_cong)
  have ne: "h2 \<noteq> h1" using h1 h2 by blast
  from copy_ctor_fields [OF ne, of s] c
  have L: "\<And>x. lft (mem s') x = (if x = h2 then h1 else if x = rgt (mem s) h1 then h2 else lft (mem s) x)"
    and R: "\<And>x. rgt (mem s') x = (if x = h1 then h2 else if x = h2 then rgt (mem s) h1 else rgt (mem s) x)"
    by auto
  fix y assume y: "y \<in> ring (mem s) x"
  then have yl: "y \<in> live s" using ring_live [OF wf x] by blast
  have "ring (mem s) y = ring (mem s) x" using wf x y by (rule ring_eq)
  then have xy: "x \<in> ring (mem s) y" by (simp add: ring.ring_self)
  have y1: "y \<noteq> h1" using xy nx by blast
  have y2: "y \<noteq> h2" using yl h2 by blast
  have "y \<noteq> rgt (mem s) h1"
  proof
    assume "y = rgt (mem s) h1"
    then have "h1 \<in> ring (mem s) y"
      using ring.ring_left [OF ring.ring_self, of "mem s" y] wf_stateD(3) [OF wf h1] by simp
    then have "ring (mem s) h1 = ring (mem s) y" using ring_eq [OF wf yl] by simp
    then show False using xy nx by simp
  qed
  then show "lft (mem s') y = lft (mem s) y \<and> rgt (mem s') y = rgt (mem s) y"
    using y1 y2 by (simp add: L R)
qed



lemma wf_example: "wf_state example_state"
  by (simp add: wf_state_def example_state_def)

lemma ring_example: "ring example_heap 2 = {2, 3}" "ring example_heap 4 = {4}"
proof -
  show "ring example_heap 2 = {2, 3}" by (rule ring_pair) simp_all
  have "base_unique example_heap 4" by (simp add: base_unique_def)
  then show "ring example_heap 4 = {4}" by (simp add: base_unique_iff_ring)
qed

section \<open>Release or detach\<close>

lemma ring_set_ptr [simp]: "ring (set_ptr a p m) x = ring m x"
  by (rule ring_cong) simp

lemma wf_state_cong:
  assumes "live s' = live s" and "\<And>a. lft (mem s') a = lft (mem s) a" and "\<And>a. rgt (mem s') a = rgt (mem s) a"
  shows "wf_state s' = wf_state s"
  by (simp add: wf_state_def assms)

lemma wf_remove_singleton:
  assumes wf: "wf_state s" and u: "base_unique (mem s) h"
  shows "wf_state (s\<lparr>live := live s - {h}\<rparr>)"
  unfolding wf_state_def
proof
  fix a assume "a \<in> live (s\<lparr>live := live s - {h}\<rparr>)"
  then have al: "a \<in> live s" and ah: "a \<noteq> h" by auto
  note A = wf_stateD [OF wf al]
  have "lft (mem s) a \<noteq> h"
  proof
    assume "lft (mem s) a = h"
    then have "a = rgt (mem s) h" using wf_lft_is [OF wf al] by simp
    then show False using u ah by (simp add: base_unique_def)
  qed
  moreover have "rgt (mem s) a \<noteq> h"
  proof
    assume "rgt (mem s) a = h"
    then have "a = lft (mem s) h" using wf_rgt_is [OF wf al] by simp
    then show False using u ah by (simp add: base_unique_def)
  qed
  ultimately show "lft (mem (s\<lparr>live := live s - {h}\<rparr>)) a \<in> live (s\<lparr>live := live s - {h}\<rparr>) \<and>
        rgt (mem (s\<lparr>live := live s - {h}\<rparr>)) a \<in> live (s\<lparr>live := live s - {h}\<rparr>) \<and>
        lft (mem (s\<lparr>live := live s - {h}\<rparr>)) (rgt (mem (s\<lparr>live := live s - {h}\<rparr>)) a) = a \<and>
        rgt (mem (s\<lparr>live := live s - {h}\<rparr>)) (lft (mem (s\<lparr>live := live s - {h}\<rparr>)) a) = a"
    using A by simp
qed

lemma reset_is_reset_ptr: "reset h s = reset_ptr h nullptr s"
  by (simp add: reset_def reset_ptr_def)

lemma reset_ptr_release:
  assumes "unique s h"
  shows "mem (reset_ptr h p s) = set_ptr h p (mem s)"
    and "deleted (reset_ptr h p s) = deleted s @ [get s h]"
    and "live (reset_ptr h p s) = live s"
  using assms by (simp_all add: reset_ptr_def release_or_detach_def)

lemma reset_ptr_detach:
  assumes "\<not> unique s h"
  shows "mem (reset_ptr h p s) = set_ptr h p (erase h (mem s))"
    and "deleted (reset_ptr h p s) = deleted s"
    and "live (reset_ptr h p s) = live s"
  using assms by (simp_all add: reset_ptr_def release_or_detach_def)

lemma unique_reset_ptr: "unique (reset_ptr h p s) h"
proof (cases "unique s h")
  case True
  then show ?thesis by (simp add: unique_def reset_ptr_release base_unique_def)
next
  case False
  then show ?thesis using base_unique_erase [of h "mem s"]
    by (simp add: unique_def reset_ptr_detach base_unique_def)
qed

lemma get_reset_ptr: "get (reset_ptr h p s) x = (if x = h then p else get s x)"
  by (cases "unique s h") (simp_all add: get_def reset_ptr_release reset_ptr_detach ptr_of_erase)

lemma wf_reset_ptr:
  assumes wf: "wf_state s" and h: "h \<in> live s"
  shows "wf_state (reset_ptr h p s)"
proof (cases "unique s h")
  case True
  have "wf_state (reset_ptr h p s) = wf_state s"
    by (rule wf_state_cong) (simp_all add: reset_ptr_release [OF True])
  then show ?thesis using wf by simp
next
  case False
  have "wf_state (reset_ptr h p s) = wf_state (s\<lparr>mem := erase h (mem s)\<rparr>)"
    by (rule wf_state_cong) (simp_all add: reset_ptr_detach [OF False])
  then show ?thesis using wf_erase [OF wf h] by simp
qed

lemma wf_dtor:
  assumes wf: "wf_state s" and h: "h \<in> live s"
  shows "wf_state (dtor h s)"
proof -
  have "wf_state (reset h s)" using wf_reset_ptr [OF wf h] by (simp add: reset_is_reset_ptr)
  moreover have "base_unique (mem (reset h s)) h"
    using unique_reset_ptr [of h nullptr s] by (simp add: reset_is_reset_ptr unique_def)
  ultimately have "wf_state ((reset h s)\<lparr>live := live (reset h s) - {h}\<rparr>)"
    by (rule wf_remove_singleton)
  then show ?thesis by (simp add: dtor_def Let_def)
qed

lemma ring_reset_ptr_member:
  assumes wf: "wf_state s" and h: "h \<in> live s" and x: "x \<in> ring (mem s) h - {h}"
  shows "ring (mem (reset_ptr h p s)) x = ring (mem s) h - {h}"
proof -
  have "ring (mem s) h \<noteq> {h}" using x by blast
  then have nu: "\<not> unique s h" by (simp add: unique_def base_unique_iff_ring)
  show ?thesis using ring_erase_member [OF wf h, of x] x by (simp add: reset_ptr_detach [OF nu])
qed

lemma ring_reset_ptr_other:
  assumes wf: "wf_state s" and h: "h \<in> live s" and x: "x \<in> live s - ring (mem s) h"
  shows "ring (mem (reset_ptr h p s)) x = ring (mem s) x"
proof -
  have xl: "x \<in> live s" and nx: "x \<notin> ring (mem s) h" using x by auto
  have nh: "h \<notin> ring (mem s) x"
  proof
    assume "h \<in> ring (mem s) x"
    then have "ring (mem s) h = ring (mem s) x" using ring_eq [OF wf xl] by simp
    then show False using nx by (simp add: ring.ring_self)
  qed
  show ?thesis
  proof (cases "unique s h")
    case True
    then show ?thesis by (simp add: reset_ptr_release)
  next
    case False
    then show ?thesis using ring_erase_other [OF wf h xl nh] by (simp add: reset_ptr_detach)
  qed
qed

section \<open>Construction\<close>

text \<open>
  C9. Copy-constructing \<open>h2\<close> from a default-constructed handle \<open>h1\<close> links the two
  empty handles into one ring of two: both references are null, the boolean test is false for
  both, and neither is \<^verbatim>\<open>unique()\<close>.
\<close>

theorem copy_of_empty_links_both:
  assumes "h2 \<noteq> h1"
  shows "\<exists>s'. copy_ctor h2 h1 (default_ctor h1 s) = Some s'
    \<and> get s' h1 = nullptr \<and> get s' h2 = nullptr \<and> \<not> to_bool s' h1 \<and> \<not> to_bool s' h2
    \<and> \<not> unique s' h1 \<and> \<not> unique s' h2
    \<and> ring (mem s') h1 = {h1, h2} \<and> ring (mem s') h2 = {h1, h2}"
proof -
  let ?s1 = "default_ctor h1 s"
  from copy_ctor_fields [OF assms, of ?s1] obtain s' where c: "copy_ctor h2 h1 ?s1 = Some s'"
    and L: "\<And>x. lft (mem s') x = (if x = h2 then h1 else if x = rgt (mem ?s1) h1 then h2 else lft (mem ?s1) x)"
    and R: "\<And>x. rgt (mem s') x = (if x = h1 then h2 else if x = h2 then rgt (mem ?s1) h1 else rgt (mem ?s1) x)"
    and P: "\<And>x. ptr_of (mem s') x = (if x = h2 then ptr_of (mem ?s1) h1 else ptr_of (mem ?s1) x)"
    by blast
  have e: "rgt (mem ?s1) h1 = h1" "ptr_of (mem ?s1) h1 = nullptr"
    by (simp_all add: default_ctor_def)
  have l: "lft (mem s') h1 = h2" "rgt (mem s') h1 = h2" "lft (mem s') h2 = h1" "rgt (mem s') h2 = h1"
    using assms by (simp_all add: L R e)
  have "ring (mem s') h1 = {h1, h2}" using l by (rule ring_pair)
  moreover have "ring (mem s') h2 = {h2, h1}" using l(3,4,1,2) by (rule ring_pair)
  moreover have "get s' h1 = nullptr \<and> get s' h2 = nullptr"
    by (simp add: get_def P e)
  moreover have "\<not> unique s' h1 \<and> \<not> unique s' h2"
    using assms l by (simp add: unique_def base_unique_def)
  ultimately show ?thesis using c by (auto simp: to_bool_def)
qed

theorem copy_of_empty_links_both_witness:
  "(3::nat) \<noteq> 2 \<and> (\<exists>s'. copy_ctor 3 2 (default_ctor 2 init) = Some s'
    \<and> get s' 2 = nullptr \<and> get s' 3 = nullptr \<and> \<not> to_bool s' 2 \<and> \<not> to_bool s' 3
    \<and> \<not> unique s' 2 \<and> \<not> unique s' 3
    \<and> ring (mem s') 2 = {2, 3} \<and> ring (mem s') 3 = {2, 3})"
proof -
  have ne: "(3::nat) \<noteq> 2" by simp
  show ?thesis using copy_of_empty_links_both [OF ne, of init] ne by blast
qed

text \<open>
  C6. Copy construction of \<open>h2\<close> from \<open>h1\<close> (the converting constructor does the same,
  and converts the reference: lemmas \<open>conv_copy_ctor_keep\<close> and \<open>conv_copy_ctor_shares\<close>)
  makes \<open>h2\<close> the right neighbour of \<open>h1\<close>, in front of \<open>h1\<close>'s former right neighbour,
  and gives it \<open>h1\<close>'s reference: afterwards \<^verbatim>\<open>h1.get() == h2.get()\<close> and neither handle is
  \<^verbatim>\<open>unique()\<close>. When the state is well formed and \<open>h2\<close> is constructed on fresh storage,
  the ring of \<open>h1\<close> has gained exactly \<open>h2\<close>, and the state is well formed again.
\<close>

theorem copy_ctor_shares:
  assumes "h2 \<noteq> h1"
  shows "\<exists>s'. copy_ctor h2 h1 s = Some s'
    \<and> get s' h2 = get s h1 \<and> get s' h1 = get s' h2 \<and> op_eq s' h1 h2
    \<and> \<not> unique s' h1 \<and> \<not> unique s' h2
    \<and> rgt (mem s') h1 = h2 \<and> lft (mem s') h2 = h1 \<and> rgt (mem s') h2 = rgt (mem s) h1
    \<and> (wf_state s \<and> h1 \<in> live s \<and> h2 \<notin> live s \<longrightarrow>
          ring (mem s') h1 = insert h2 (ring (mem s) h1) \<and> ring (mem s') h2 = ring (mem s') h1
          \<and> lft (mem s') (rgt (mem s) h1) = h2 \<and> wf_state s')"
proof -
  from copy_ctor_fields [OF assms, of s] obtain s' where c: "copy_ctor h2 h1 s = Some s'"
    and L: "\<And>x. lft (mem s') x = (if x = h2 then h1 else if x = rgt (mem s) h1 then h2 else lft (mem s) x)"
    and R: "\<And>x. rgt (mem s') x = (if x = h1 then h2 else if x = h2 then rgt (mem s) h1 else rgt (mem s) x)"
    and P: "\<And>x. ptr_of (mem s') x = (if x = h2 then ptr_of (mem s) h1 else ptr_of (mem s) x)"
    and live: "live s' = insert h2 (live s)"
    by blast
  have basic: "get s' h2 = get s h1 \<and> get s' h1 = get s' h2 \<and> op_eq s' h1 h2
    \<and> \<not> unique s' h1 \<and> \<not> unique s' h2
    \<and> rgt (mem s') h1 = h2 \<and> lft (mem s') h2 = h1 \<and> rgt (mem s') h2 = rgt (mem s) h1"
    using assms by (simp add: get_def op_eq_def unique_def base_unique_def L R P)
  have rings: "ring (mem s') h1 = insert h2 (ring (mem s) h1) \<and> ring (mem s') h2 = ring (mem s') h1
          \<and> lft (mem s') (rgt (mem s) h1) = h2 \<and> wf_state s'"
    if wf: "wf_state s" and h1: "h1 \<in> live s" and h2: "h2 \<notin> live s"
  proof -
    have wf': "wf_state s'" using wf h1 h2 c by (rule wf_copy_ctor)
    have r: "ring (mem s') h1 = insert h2 (ring (mem s) h1)" using wf h1 h2 c by (rule ring_copy_ctor)
    have "h1 \<in> live s'" using h1 live by simp
    moreover have "h2 \<in> ring (mem s') h1" using r by simp
    ultimately have "ring (mem s') h2 = ring (mem s') h1" using wf' ring_eq by blast
    moreover have "rgt (mem s) h1 \<noteq> h2" using wf_stateD(2) [OF wf h1] h2 by auto
    ultimately show ?thesis using wf' r by (simp add: L)
  qed
  show ?thesis using c basic rings by blast
qed

theorem copy_ctor_shares_witness:
  "(5::nat) \<noteq> 2 \<and> wf_state example_state \<and> 2 \<in> live example_state \<and> 5 \<notin> live example_state
   \<and> (\<exists>s'. copy_ctor 5 2 example_state = Some s'
        \<and> get s' 5 = get example_state 2 \<and> get s' 2 = get s' 5 \<and> op_eq s' 2 5
        \<and> \<not> unique s' 2 \<and> \<not> unique s' 5
        \<and> rgt (mem s') 2 = 5 \<and> lft (mem s') 5 = 2 \<and> rgt (mem s') 5 = rgt (mem example_state) 2
        \<and> ring (mem s') 2 = insert 5 (ring (mem example_state) 2)
        \<and> ring (mem s') 5 = ring (mem s') 2
        \<and> lft (mem s') (rgt (mem example_state) 2) = 5 \<and> wf_state s')"
proof -
  have ne: "(5::nat) \<noteq> 2" by simp
  have h: "2 \<in> live example_state" "5 \<notin> live example_state"
    by (simp_all add: example_state_def)
  show ?thesis using copy_ctor_shares [OF ne, of example_state] ne wf_example h by blast
qed

text \<open>
  C8. A handle constructed from a raw reference on fresh storage is a sole owner: it is
  \<^verbatim>\<open>unique()\<close>, its ring is itself alone, and no existing handle is touched: each keeps
  its fields and its ring, and the new handle is in none of those rings. This holds for every
  reference \<open>p\<close>, also one that an existing handle already owns.
\<close>

theorem raw_ctor_sole_owner:
  assumes "wf_state s" and "a \<notin> live s"
  shows "unique (raw_ctor a p s) a \<and> get (raw_ctor a p s) a = p
    \<and> ring (mem (raw_ctor a p s)) a = {a}
    \<and> (\<forall>b \<in> live s. mem (raw_ctor a p s) b = mem s b
          \<and> ring (mem (raw_ctor a p s)) b = ring (mem s) b \<and> a \<notin> ring (mem (raw_ctor a p s)) b)
    \<and> deleted (raw_ctor a p s) = deleted s \<and> live (raw_ctor a p s) = insert a (live s)
    \<and> wf_state (raw_ctor a p s)"
proof -
  have u: "unique (raw_ctor a p s) a"
    by (simp add: unique_def raw_ctor_def base_unique_base_ctor)
  then have r: "ring (mem (raw_ctor a p s)) a = {a}"
    by (simp add: unique_def base_unique_iff_ring)
  have o: "mem (raw_ctor a p s) b = mem s b \<and> ring (mem (raw_ctor a p s)) b = ring (mem s) b
      \<and> a \<notin> ring (mem (raw_ctor a p s)) b" if b: "b \<in> live s" for b
  proof -
    have ba: "b \<noteq> a" using b assms(2) by blast
    have "ring (mem (raw_ctor a p s)) b = ring (mem s) b"
      using ring_ctor_other [OF assms b] by (simp add: raw_ctor_def)
    moreover have "a \<notin> ring (mem s) b" using ring_live [OF assms(1) b] assms(2) by blast
    ultimately show ?thesis using ba by (simp add: raw_ctor_def base_ctor_def)
  qed
  have w: "wf_state (raw_ctor a p s)" using wf_ctor [OF assms] by (simp add: raw_ctor_def)
  have g: "get (raw_ctor a p s) a = p" by (simp add: get_def raw_ctor_def)
  have d: "deleted (raw_ctor a p s) = deleted s \<and> live (raw_ctor a p s) = insert a (live s)"
    by (simp add: raw_ctor_def)
  show ?thesis using u g r o d w by blast
qed

theorem raw_ctor_sole_owner_witness:
  "wf_state example_state \<and> 5 \<notin> live example_state \<and> get example_state 2 = 10
   \<and> unique (raw_ctor 5 10 example_state) 5 \<and> get (raw_ctor 5 10 example_state) 5 = 10
   \<and> ring (mem (raw_ctor 5 10 example_state)) 5 = {5}
   \<and> mem (raw_ctor 5 10 example_state) 2 = mem example_state 2
   \<and> ring (mem (raw_ctor 5 10 example_state)) 2 = ring (mem example_state) 2
   \<and> 5 \<notin> ring (mem (raw_ctor 5 10 example_state)) 2
   \<and> deleted (raw_ctor 5 10 example_state) = deleted example_state
   \<and> live (raw_ctor 5 10 example_state) = insert 5 (live example_state)
   \<and> wf_state (raw_ctor 5 10 example_state)"
proof -
  have h: "5 \<notin> live example_state" by (simp add: example_state_def)
  have g: "get example_state 2 = 10" by (simp add: get_def example_state_def)
  have l: "2 \<in> live example_state" by (simp add: example_state_def)
  note T = raw_ctor_sole_owner [OF wf_example h, of 10]
  note B = bspec [OF T [THEN conjunct2, THEN conjunct2, THEN conjunct2, THEN conjunct1] l]
  show ?thesis
    by (intro conjI wf_example h g T [THEN conjunct1] T [THEN conjunct2, THEN conjunct1]
        T [THEN conjunct2, THEN conjunct2, THEN conjunct1] B [THEN conjunct1]
        B [THEN conjunct2, THEN conjunct1] B [THEN conjunct2, THEN conjunct2]
        T [THEN conjunct2, THEN conjunct2, THEN conjunct2, THEN conjunct2, THEN conjunct1]
        T [THEN conjunct2, THEN conjunct2, THEN conjunct2, THEN conjunct2, THEN conjunct2, THEN conjunct1]
        T [THEN conjunct2, THEN conjunct2, THEN conjunct2, THEN conjunct2, THEN conjunct2, THEN conjunct2])
qed

section \<open>Reset and destruction\<close>

text \<open>
  C3. \<^verbatim>\<open>reset()\<close> and the destructor obey the release-or-detach rule. When the handle is
  \<^verbatim>\<open>unique()\<close>, \<^verbatim>\<open>delete\<close> is evaluated on its reference and nothing but its own reference
  field changes. Otherwise nothing is deleted: the node is erased from its ring, every other
  handle keeps its reference, and in a well-formed state each remaining member's ring is the
  old ring without the node. Afterwards the handle is an empty singleton. The destructor is
  \<^verbatim>\<open>reset()\<close> followed by the end of the handle's lifetime. Well-formedness is kept.
\<close>

theorem reset_release_or_detach:
  "(unique s h \<longrightarrow> deleted (reset h s) = deleted s @ [get s h]
        \<and> mem (reset h s) = set_ptr h nullptr (mem s))
   \<and> (\<not> unique s h \<longrightarrow> deleted (reset h s) = deleted s
        \<and> mem (reset h s) = set_ptr h nullptr (erase h (mem s))
        \<and> (\<forall>x. x \<noteq> h \<longrightarrow> get (reset h s) x = get s x))
   \<and> (wf_state s \<and> h \<in> live s \<longrightarrow>
        (\<forall>x \<in> ring (mem s) h - {h}. ring (mem (reset h s)) x = ring (mem s) h - {h}))
   \<and> unique (reset h s) h \<and> get (reset h s) h = nullptr \<and> ring (mem (reset h s)) h = {h}
   \<and> live (reset h s) = live s
   \<and> dtor h s = (reset h s)\<lparr>live := live s - {h}\<rparr>
   \<and> (wf_state s \<and> h \<in> live s \<longrightarrow> wf_state (reset h s) \<and> wf_state (dtor h s))"
proof (intro conjI impI ballI allI)
  assume "unique s h"
  then show "deleted (reset h s) = deleted s @ [get s h]" "mem (reset h s) = set_ptr h nullptr (mem s)"
    by (simp_all add: reset_is_reset_ptr reset_ptr_release)
next
  assume "\<not> unique s h"
  then show "deleted (reset h s) = deleted s" "mem (reset h s) = set_ptr h nullptr (erase h (mem s))"
    by (simp_all add: reset_is_reset_ptr reset_ptr_detach)
next
  fix x assume "x \<noteq> h"
  then show "get (reset h s) x = get s x" by (simp add: reset_is_reset_ptr get_reset_ptr)
next
  fix x assume "wf_state s \<and> h \<in> live s" and "x \<in> ring (mem s) h - {h}"
  then show "ring (mem (reset h s)) x = ring (mem s) h - {h}"
    using ring_reset_ptr_member [of s h x nullptr] by (simp add: reset_is_reset_ptr)
next
  show u: "unique (reset h s) h" by (simp add: reset_is_reset_ptr unique_reset_ptr)
  then show "ring (mem (reset h s)) h = {h}" by (simp add: unique_def base_unique_iff_ring)
  show "get (reset h s) h = nullptr" by (simp add: reset_is_reset_ptr get_reset_ptr)
  show l: "live (reset h s) = live s"
    by (cases "unique s h") (simp_all add: reset_is_reset_ptr reset_ptr_release reset_ptr_detach)
  show "dtor h s = (reset h s)\<lparr>live := live s - {h}\<rparr>" by (simp add: dtor_def Let_def l)
next
  assume "wf_state s \<and> h \<in> live s"
  then show "wf_state (reset h s)" "wf_state (dtor h s)"
    using wf_reset_ptr [of s h nullptr] wf_dtor [of s h] by (simp_all add: reset_is_reset_ptr)
qed


theorem reset_release_or_detach_witness:
  "\<not> unique example_state 2 \<and> wf_state example_state \<and> 2 \<in> live example_state
   \<and> 3 \<in> ring (mem example_state) 2 - {2} \<and> unique example_state 4
   \<and> deleted (reset 4 example_state) = deleted example_state @ [get example_state 4]
   \<and> deleted (reset 2 example_state) = deleted example_state
   \<and> mem (reset 2 example_state) = set_ptr 2 nullptr (erase 2 (mem example_state))
   \<and> get (reset 2 example_state) 3 = get example_state 3
   \<and> ring (mem (reset 2 example_state)) 3 = ring (mem example_state) 2 - {2}
   \<and> unique (reset 2 example_state) 2 \<and> get (reset 2 example_state) 2 = nullptr
   \<and> wf_state (reset 2 example_state) \<and> wf_state (dtor 2 example_state)"
proof -
  have m: "mem example_state = example_heap" by (simp add: example_state_def)
  have n2: "\<not> unique example_state 2" by (simp add: unique_def base_unique_def m)
  have u4: "unique example_state 4" by (simp add: unique_def base_unique_def m)
  have l: "2 \<in> live example_state" by (simp add: example_state_def)
  have r: "3 \<in> ring (mem example_state) 2 - {2}" by (simp add: m ring_example)
  note T2 = reset_release_or_detach [of example_state 2]
  note T4 = reset_release_or_detach [of example_state 4]
  have a: "deleted (reset 4 example_state) = deleted example_state @ [get example_state 4]"
    using T4 u4 by simp
  have b: "deleted (reset 2 example_state) = deleted example_state
     \<and> mem (reset 2 example_state) = set_ptr 2 nullptr (erase 2 (mem example_state))
     \<and> get (reset 2 example_state) 3 = get example_state 3"
    using T2 n2 by simp
  have c: "ring (mem (reset 2 example_state)) 3 = ring (mem example_state) 2 - {2}"
    using T2 wf_example l r by blast
  have d: "unique (reset 2 example_state) 2 \<and> get (reset 2 example_state) 2 = nullptr"
    using T2 by simp
  have e: "wf_state (reset 2 example_state) \<and> wf_state (dtor 2 example_state)"
    using T2 [THEN conjunct2, THEN conjunct2, THEN conjunct2, THEN conjunct2, THEN conjunct2,
      THEN conjunct2, THEN conjunct2, THEN conjunct2] wf_example l by (rule mp [OF _ conjI])
  show ?thesis using n2 wf_example l r u4 a b c d e by simp
qed

text \<open>
  C4. \<^verbatim>\<open>reset(p)\<close> on a handle that is not \<^verbatim>\<open>unique()\<close>, in a well-formed state: the handle
  becomes a singleton owning \<open>p\<close>, its ring is itself alone, and nothing is deleted. Every
  other live handle keeps its reference and its links, except that the two former neighbours
  are linked to each other; each remaining member's ring is the old ring without the node,
  and every other ring is as before.
\<close>

theorem reset_ptr_shared:
  assumes wf: "wf_state s" and h: "h \<in> live s" and nu: "\<not> unique s h"
  shows "unique (reset_ptr h p s) h \<and> get (reset_ptr h p s) h = p
    \<and> ring (mem (reset_ptr h p s)) h = {h}
    \<and> deleted (reset_ptr h p s) = deleted s \<and> live (reset_ptr h p s) = live s
    \<and> (\<forall>x \<in> live s - {h}. get (reset_ptr h p s) x = get s x
          \<and> rgt (mem (reset_ptr h p s)) x
              = (if rgt (mem s) x = h then rgt (mem s) h else rgt (mem s) x)
          \<and> lft (mem (reset_ptr h p s)) x
              = (if lft (mem s) x = h then lft (mem s) h else lft (mem s) x))
    \<and> (\<forall>x \<in> ring (mem s) h - {h}. ring (mem (reset_ptr h p s)) x = ring (mem s) h - {h})
    \<and> (\<forall>x \<in> live s - ring (mem s) h. ring (mem (reset_ptr h p s)) x = ring (mem s) x)
    \<and> wf_state (reset_ptr h p s)"
proof (intro conjI ballI)
  show u: "unique (reset_ptr h p s) h" by (rule unique_reset_ptr)
  then show "ring (mem (reset_ptr h p s)) h = {h}" by (simp add: unique_def base_unique_iff_ring)
  show "get (reset_ptr h p s) h = p" by (simp add: get_reset_ptr)
  show "deleted (reset_ptr h p s) = deleted s" "live (reset_ptr h p s) = live s"
    using nu by (simp_all add: reset_ptr_detach)
  show "wf_state (reset_ptr h p s)" using wf h by (rule wf_reset_ptr)
next
  fix x assume x: "x \<in> live s - {h}"
  then have xl: "x \<in> live s" and xh: "x \<noteq> h" by auto
  note H = wf_stateD [OF wf h]
  show "get (reset_ptr h p s) x = get s x" using xh by (simp add: get_reset_ptr)
  have "(x = lft (mem s) h) = (rgt (mem s) x = h)"
    using wf_rgt_is [OF wf xl, of h] H(4) by auto
  then show "rgt (mem (reset_ptr h p s)) x
      = (if rgt (mem s) x = h then rgt (mem s) h else rgt (mem s) x)"
    using xh by (simp add: reset_ptr_detach [OF nu] rgt_erase)
  have "(x = rgt (mem s) h) = (lft (mem s) x = h)"
    using wf_lft_is [OF wf xl, of h] H(3) by auto
  then show "lft (mem (reset_ptr h p s)) x
      = (if lft (mem s) x = h then lft (mem s) h else lft (mem s) x)"
    using xh by (simp add: reset_ptr_detach [OF nu] lft_erase)
next
  fix x assume "x \<in> ring (mem s) h - {h}"
  then show "ring (mem (reset_ptr h p s)) x = ring (mem s) h - {h}"
    using wf h by (simp add: ring_reset_ptr_member)
next
  fix x assume "x \<in> live s - ring (mem s) h"
  then show "ring (mem (reset_ptr h p s)) x = ring (mem s) x"
    using wf h by (simp add: ring_reset_ptr_other)
qed

theorem reset_ptr_shared_witness:
  "wf_state example_state \<and> 2 \<in> live example_state \<and> \<not> unique example_state 2
   \<and> 3 \<in> live example_state - {2} \<and> 3 \<in> ring (mem example_state) 2 - {2}
   \<and> 4 \<in> live example_state - ring (mem example_state) 2
   \<and> unique (reset_ptr 2 30 example_state) 2 \<and> get (reset_ptr 2 30 example_state) 2 = 30
   \<and> ring (mem (reset_ptr 2 30 example_state)) 2 = {2}
   \<and> deleted (reset_ptr 2 30 example_state) = deleted example_state
   \<and> get (reset_ptr 2 30 example_state) 3 = get example_state 3
   \<and> ring (mem (reset_ptr 2 30 example_state)) 3 = ring (mem example_state) 2 - {2}
   \<and> ring (mem (reset_ptr 2 30 example_state)) 4 = ring (mem example_state) 4
   \<and> wf_state (reset_ptr 2 30 example_state)"
proof -
  have m: "mem example_state = example_heap" by (simp add: example_state_def)
  have n2: "\<not> unique example_state 2" by (simp add: unique_def base_unique_def m)
  have l: "2 \<in> live example_state" by (simp add: example_state_def)
  have l3: "3 \<in> live example_state - {2}" by (simp add: example_state_def)
  have r3: "3 \<in> ring (mem example_state) 2 - {2}" by (simp add: m ring_example)
  have r4: "4 \<in> live example_state - ring (mem example_state) 2"
    by (simp add: m ring_example example_state_def)
  note T = reset_ptr_shared [OF wf_example l n2, of 30]
  have a: "unique (reset_ptr 2 30 example_state) 2 \<and> get (reset_ptr 2 30 example_state) 2 = 30
     \<and> ring (mem (reset_ptr 2 30 example_state)) 2 = {2}
     \<and> deleted (reset_ptr 2 30 example_state) = deleted example_state
     \<and> wf_state (reset_ptr 2 30 example_state)"
    using T by simp
  have b: "get (reset_ptr 2 30 example_state) 3 = get example_state 3"
    using T l3 by blast
  have c: "ring (mem (reset_ptr 2 30 example_state)) 3 = ring (mem example_state) 2 - {2}"
    using T r3 by blast
  have d: "ring (mem (reset_ptr 2 30 example_state)) 4 = ring (mem example_state) 4"
    using T r4 by blast
  show ?thesis using wf_example l n2 l3 r3 r4 a b c d by simp
qed

section \<open>Comparisons\<close>

text \<open>
  After the converting copy construction the source and the copy compare equal, whatever the
  conversion, and neither is \<^verbatim>\<open>unique()\<close>.
\<close>

lemma conv_copy_ctor_shares:
  assumes "h2 \<noteq> h1"
  shows "\<exists>s'. conv_copy_ctor cast h2 h1 s = Some s'
    \<and> get s' h1 = get s h1 \<and> get s' h2 = cast (get s h1)
    \<and> op_eq_conv cast keep s' h1 h2 \<and> op_eq_conv keep cast s' h2 h1
    \<and> \<not> unique s' h1 \<and> \<not> unique s' h2
    \<and> rgt (mem s') h1 = h2 \<and> lft (mem s') h2 = h1 \<and> rgt (mem s') h2 = rgt (mem s) h1"
proof -
  from conv_copy_ctor_fields [OF assms, of cast s] obtain s'
    where c: "conv_copy_ctor cast h2 h1 s = Some s'"
    and L: "\<And>x. lft (mem s') x = (if x = h2 then h1 else if x = rgt (mem s) h1 then h2 else lft (mem s) x)"
    and R: "\<And>x. rgt (mem s') x = (if x = h1 then h2 else if x = h2 then rgt (mem s) h1 else rgt (mem s) x)"
    and P: "\<And>x. ptr_of (mem s') x = (if x = h2 then cast (ptr_of (mem s) h1) else ptr_of (mem s) x)"
    by blast
  have "get s' h1 = get s h1 \<and> get s' h2 = cast (get s h1)
    \<and> op_eq_conv cast keep s' h1 h2 \<and> op_eq_conv keep cast s' h2 h1
    \<and> \<not> unique s' h1 \<and> \<not> unique s' h2
    \<and> rgt (mem s') h1 = h2 \<and> lft (mem s') h2 = h1 \<and> rgt (mem s') h2 = rgt (mem s) h1"
    using assms by (simp add: get_def op_eq_conv_def keep_def unique_def base_unique_def L R P)
  with c show ?thesis by blast
qed

text \<open>
  The second example state is the state after
  \<^verbatim>\<open>linked_ptr<C> pc(new C); linked_ptr<B> pb(pc);\<close> for \<^verbatim>\<open>struct C : A, B\<close> with the
  object at the address \<open>16\<close> and its base \<^verbatim>\<open>B\<close> at the offset \<open>8\<close>.
\<close>

lemma typed_example_fields:
  "lft (mem typed_example_state) a = (if a = 2 then 3 else if a = 3 then 2 else 0)"
  "rgt (mem typed_example_state) a = (if a = 2 then 3 else if a = 3 then 2 else 0)"
  "ptr_of (mem typed_example_state) a = (if a = 2 then 16 else if a = 3 then 24 else 0)"
  by (simp_all add: lft_def rgt_def ptr_of_def typed_example_state_def node_def)

lemma typed_example_reachable:
  "conv_copy_ctor (to_base 8) 3 2 (raw_ctor 2 16 init) = Some typed_example_state"
proof -
  have ne: "(3::nat) \<noteq> 2" by simp
  from conv_copy_ctor_fields [OF ne, of "to_base 8" "raw_ctor 2 16 init"] obtain s
    where s: "conv_copy_ctor (to_base 8) 3 2 (raw_ctor 2 16 init) = Some s"
    and L: "\<And>x. lft (mem s) x = (if x = 3 then 2 else if x = rgt (mem (raw_ctor 2 16 init)) 2
              then 3 else lft (mem (raw_ctor 2 16 init)) x)"
    and R: "\<And>x. rgt (mem s) x = (if x = 2 then 3 else if x = 3
              then rgt (mem (raw_ctor 2 16 init)) 2 else rgt (mem (raw_ctor 2 16 init)) x)"
    and P: "\<And>x. ptr_of (mem s) x = (if x = 3 then to_base 8 (ptr_of (mem (raw_ctor 2 16 init)) 2)
              else ptr_of (mem (raw_ctor 2 16 init)) x)"
    and l: "live s = insert 3 (live (raw_ctor 2 16 init))"
    and d: "deleted s = deleted (raw_ctor 2 16 init)"
    by blast
  have i: "lft (mem init) a = 0" "rgt (mem init) a = 0" "ptr_of (mem init) a = 0" for a
    by (simp_all add: lft_def rgt_def ptr_of_def init_def)
  have "mem s = mem typed_example_state"
  proof (rule heap_eqI)
    fix a show "lft (mem s) a = lft (mem typed_example_state) a"
      by (simp add: L typed_example_fields raw_ctor_def i)
  next
    fix a show "rgt (mem s) a = rgt (mem typed_example_state) a"
      by (simp add: R typed_example_fields raw_ctor_def i)
  next
    fix a show "ptr_of (mem s) a = ptr_of (mem typed_example_state) a"
      by (simp add: P typed_example_fields raw_ctor_def i to_base_def nullptr_def)
  qed
  moreover have "live s = live typed_example_state"
    by (auto simp: l raw_ctor_def init_def typed_example_state_def)
  moreover have "deleted s = deleted typed_example_state"
    by (simp add: d raw_ctor_def init_def typed_example_state_def)
  ultimately have "s = typed_example_state" by simp
  with s show ?thesis by simp
qed

text \<open>
  The operators between handles of one static type are the general ones with the conversion
  that keeps the address.
\<close>

lemma same_type_operators:
  "op_eq_conv keep keep s a b = op_eq s a b" "op_ne_conv keep keep s a b = op_ne s a b"
  "op_gt_conv keep keep s a b = op_gt s a b" "op_le_conv keep keep s a b = op_le s a b"
  by (simp_all add: op_eq_conv_def op_ne_conv_def op_gt_conv_def op_le_conv_def keep_def
      op_eq_def op_ne_def op_gt_def op_le_def)




section \<open>Swap\<close>

text \<open>The definitions that evaluate an operation on a concrete state.\<close>

lemmas eval_defs = default_ctor_def raw_ctor_def copy_ctor_def reset_def reset_ptr_def dtor_def
  swap_def release_or_detach_def unique_def get_def base_unique_def base_ctor_def
  insert_after_def erase_def base_swap_def swap_right_def swap_left_def swap_ptr_def repoint_def
  implicit_assign_def init_def nullptr_def Let_def

text \<open>
  The example state is the state after the statements
  \<^verbatim>\<open>linked_ptr<int> a(p); linked_ptr<int> x(a); linked_ptr<int> b(q);\<close>
  with \<open>a\<close>, \<open>x\<close>, \<open>b\<close> at the addresses \<open>2\<close>, \<open>3\<close>, \<open>4\<close> and \<open>p = 10\<close>, \<open>q = 20\<close>.
\<close>

lemma example_heap_fields:
  "lft example_heap a = (if a = 2 then 3 else if a = 3 then 2 else if a = 4 then 4 else 0)"
  "rgt example_heap a = (if a = 2 then 3 else if a = 3 then 2 else if a = 4 then 4 else 0)"
  "ptr_of example_heap a = (if a = 2 then 10 else if a = 3 then 10 else if a = 4 then 20 else 0)"
  by (simp_all add: lft_def rgt_def ptr_of_def example_heap_def node_def)

lemma init_fields: "lft (mem init) a = 0" "rgt (mem init) a = 0" "ptr_of (mem init) a = 0"
  by (simp_all add: lft_def rgt_def ptr_of_def init_def)

lemma example_state_reachable:
  "run [Raw 2 10, Copy 3 2, Raw 4 20] init = Some example_state"
proof -
  obtain s where s: "run [Raw 2 10, Copy 3 2, Raw 4 20] init = Some s"
    by (simp add: eval_defs)
  have l: "live s = {2, 3, 4}" and d: "deleted s = []"
    using s by (auto simp: eval_defs)
  have "mem s = example_heap"
  proof (rule heap_eqI)
    fix a show "lft (mem s) a = lft example_heap a"
      using s init_fields by (auto simp: eval_defs example_heap_fields)
  next
    fix a show "rgt (mem s) a = rgt example_heap a"
      using s init_fields by (auto simp: eval_defs example_heap_fields)
  next
    fix a show "ptr_of (mem s) a = ptr_of example_heap a"
      using s init_fields by (auto simp: eval_defs example_heap_fields)
  qed
  then have "s = example_state" using l d by (simp add: example_state_def)
  then show ?thesis using s by simp
qed

text \<open>
  Two nodes of disjoint rings, neither of them singleton: \<^verbatim>\<open>swap\<close> exchanges their links and
  repoints the four neighbours. Two singleton nodes: nothing changes.
\<close>

lemma base_swap_shared:
  assumes wf: "wf_state s" and a: "a \<in> live s" and b: "b \<in> live s"
    and nab: "b \<notin> ring (mem s) a"
    and nua: "\<not> base_unique (mem s) a" and nub: "\<not> base_unique (mem s) b"
  shows "lft (base_swap a b (mem s)) x =
      (if x = a then lft (mem s) b else if x = b then lft (mem s) a
       else if x = rgt (mem s) a then b else if x = rgt (mem s) b then a else lft (mem s) x)"
    and "rgt (base_swap a b (mem s)) x =
      (if x = a then rgt (mem s) b else if x = b then rgt (mem s) a
       else if x = lft (mem s) a then b else if x = lft (mem s) b then a else rgt (mem s) x)"
    and "ptr_of (base_swap a b (mem s)) x = ptr_of (mem s) x"
proof -
  let ?m = "mem s"
  note A = wf_stateD [OF wf a] and B = wf_stateD [OF wf b]
  have ab: "a \<noteq> b" using nab by (auto simp: ring.ring_self)
  have a1: "lft ?m a \<noteq> a" "rgt ?m a \<noteq> a"
    using nua A by (auto simp: base_unique_def)
  have b1: "lft ?m b \<noteq> b" "rgt ?m b \<noteq> b"
    using nub B by (auto simp: base_unique_def)
  have ra: "lft ?m a \<in> ring ?m a" "rgt ?m a \<in> ring ?m a"
    "lft ?m (lft ?m a) \<in> ring ?m a" "rgt ?m (rgt ?m a) \<in> ring ?m a"
    by (auto intro: ring.intros)
  have a2: "lft ?m a \<noteq> b" "rgt ?m a \<noteq> b" using ra nab by auto
  have b2: "lft ?m b \<noteq> a" "rgt ?m b \<noteq> a"
    using B a2 by auto
  have c: "lft ?m a \<noteq> rgt ?m b" "rgt ?m a \<noteq> lft ?m b"
    using B ra nab by metis+
  have d: "lft ?m a \<noteq> lft ?m b" "rgt ?m a \<noteq> rgt ?m b"
    using wf_lft_eq [OF wf a b] wf_rgt_eq [OF wf a b] ab by blast+
  note neq = ab a1 b1 a2 b2 c d ab [symmetric] a1 [symmetric] b1 [symmetric] a2 [symmetric]
    b2 [symmetric] c [symmetric] d [symmetric]
  have nu: "\<not> (lft ?m a = a \<and> rgt ?m a = a \<and> lft ?m b = b \<and> rgt ?m b = b)"
    using a1 by simp
  show "lft (base_swap a b ?m) x =
      (if x = a then lft ?m b else if x = b then lft ?m a
       else if x = rgt ?m a then b else if x = rgt ?m b then a else lft ?m x)"
    using neq nu
    by (simp add: base_swap_def swap_right_def swap_left_def repoint_def base_unique_def Let_def)
  show "rgt (base_swap a b ?m) x =
      (if x = a then rgt ?m b else if x = b then rgt ?m a
       else if x = lft ?m a then b else if x = lft ?m b then a else rgt ?m x)"
    using neq nu
    by (simp add: base_swap_def swap_right_def swap_left_def repoint_def base_unique_def Let_def)
  show "ptr_of (base_swap a b ?m) x = ptr_of ?m x"
    by (simp add: base_swap_def swap_right_def swap_left_def repoint_def Let_def)
qed

lemma base_swap_singletons:
  "base_unique m a \<Longrightarrow> base_unique m b \<Longrightarrow> base_swap a b m = m"
  by (simp add: base_swap_def)

lemma get_swap:
  "get (swap a b s) x = (if x = a then get s b else if x = b then get s a else get s x)"
  by (simp add: swap_def get_def swap_ptr_def base_swap_def swap_right_def swap_left_def
      repoint_def Let_def)

text \<open>
  C2. \<^verbatim>\<open>swap\<close> of a handle that shares its ring with a handle that is singleton. In the
  example state, handles \<open>2\<close> and \<open>3\<close> share the resource \<open>10\<close> and handle \<open>4\<close> alone owns
  \<open>20\<close>: the rings are disjoint and the references differ. After \<^verbatim>\<open>swap\<close> of \<open>2\<close> and \<open>4\<close> the references
  are exchanged, but \<open>2\<close> and \<open>4\<close> point at each other, \<open>2\<close> is not singleton, and both
  links of \<open>3\<close> still point at \<open>2\<close> instead of the swapped-in \<open>4\<close>. After the two
  \<^verbatim>\<open>std::swap\<close>s the links of \<open>2\<close> hold the address of \<open>4\<close> (they were \<open>4\<close>'s pointers to
  itself), so the test \<^verbatim>\<open>!unique()\<close> at line 34 succeeds for the node that should have become
  singleton.
\<close>

theorem swap_singleton_with_shared:
  "ring (mem example_state) 2 = {2, 3} \<and> ring (mem example_state) 4 = {4}
   \<and> get example_state 2 = 10 \<and> get example_state 4 = 20
   \<and> get (swap 2 4 example_state) 2 = 20 \<and> get (swap 2 4 example_state) 4 = 10
   \<and> get (swap 2 4 example_state) 3 = 10
   \<and> lft (mem (swap 2 4 example_state)) 2 = 4 \<and> rgt (mem (swap 2 4 example_state)) 2 = 4
   \<and> lft (mem (swap 2 4 example_state)) 4 = 2 \<and> rgt (mem (swap 2 4 example_state)) 4 = 2
   \<and> lft (mem (swap 2 4 example_state)) 3 = 2 \<and> rgt (mem (swap 2 4 example_state)) 3 = 2
   \<and> \<not> unique (swap 2 4 example_state) 2"
proof -
  have m: "mem example_state = example_heap" by (simp add: example_state_def)
  have r: "ring (mem example_state) 2 = {2, 3} \<and> ring (mem example_state) 4 = {4}"
    by (simp add: m ring_example)
  have g: "get example_state 2 = 10 \<and> get example_state 4 = 20"
    by (simp add: get_def m)
  have p: "get (swap 2 4 example_state) 2 = 20 \<and> get (swap 2 4 example_state) 4 = 10
      \<and> get (swap 2 4 example_state) 3 = 10"
    by (simp add: get_swap) (simp add: get_def m)
  have l: "lft (mem (swap 2 4 example_state)) 2 = 4 \<and> rgt (mem (swap 2 4 example_state)) 2 = 4
   \<and> lft (mem (swap 2 4 example_state)) 4 = 2 \<and> rgt (mem (swap 2 4 example_state)) 4 = 2
   \<and> lft (mem (swap 2 4 example_state)) 3 = 2 \<and> rgt (mem (swap 2 4 example_state)) 3 = 2"
    by (simp add: swap_def get_def m swap_ptr_def base_swap_def swap_right_def swap_left_def
      repoint_def base_unique_def Let_def)
  then have u: "\<not> unique (swap 2 4 example_state) 2"
    by (simp add: unique_def base_unique_def)
  show ?thesis using r g p l u by simp
qed

text \<open>
  C1. The same sequence continued to the end of the scope: handle \<open>2\<close> constructed from the
  resource \<open>10\<close>, handle \<open>3\<close> copied from it, handle \<open>4\<close> constructed from the resource
  \<open>20\<close>, \<^verbatim>\<open>swap\<close> of \<open>2\<close> and \<open>4\<close>, then the three destructors in reverse order of
  construction. No operation aborts, no handle is left, and \<^verbatim>\<open>delete\<close> has been evaluated once,
  on \<open>20\<close>: the resource \<open>10\<close> is never released.
\<close>

theorem swap_then_destroy_leaks:
  "\<exists>s. run [Raw 2 10, Copy 3 2, Raw 4 20, Swap 2 4, Dtor 4, Dtor 3, Dtor 2] init = Some s
     \<and> deleted s = [20] \<and> live s = {}"
  by (simp add: eval_defs)

text \<open>
  In every state, an operation evaluates \<^verbatim>\<open>delete\<close> at most once, and only when it is a
  \<^verbatim>\<open>reset\<close> or a destructor of a handle whose ring is the handle alone; the reference deleted
  is that handle's.
\<close>

lemma deleted_reset_ptr:
  "deleted (reset_ptr h p s) = deleted s
   \<or> ring (mem s) h = {h} \<and> deleted (reset_ptr h p s) = deleted s @ [get s h]"
proof (cases "unique s h")
  case True
  then have "ring (mem s) h = {h}" by (simp add: unique_def base_unique_iff_ring)
  then show ?thesis using True by (simp add: reset_ptr_release)
next
  case False
  then show ?thesis by (simp add: reset_ptr_detach)
qed

lemma deleted_exec:
  assumes "exec x s = Some s'"
  shows "deleted s' = deleted s
    \<or> (\<exists>h. (x = Reset h \<or> (\<exists>p. x = ResetPtr h p) \<or> x = Dtor h)
          \<and> ring (mem s) h = {h} \<and> deleted s' = deleted s @ [get s h])"
proof (cases x)
  case (Default a) with assms show ?thesis by (auto simp: default_ctor_def)
next
  case (Raw a p) with assms show ?thesis by (auto simp: raw_ctor_def)
next
  case (Copy a b)
  with assms show ?thesis by (auto simp: copy_ctor_def Let_def split: option.splits)
next
  case (Reset h)
  with assms have "s' = reset_ptr h nullptr s" by (simp add: reset_is_reset_ptr)
  then show ?thesis using deleted_reset_ptr [of h nullptr s] Reset by blast
next
  case (ResetPtr h p)
  with assms have "s' = reset_ptr h p s" by simp
  then show ?thesis using deleted_reset_ptr [of h p s] ResetPtr by blast
next
  case (Swap a b) with assms show ?thesis by (auto simp: swap_def)
next
  case (Dtor h)
  with assms have "deleted s' = deleted (reset_ptr h nullptr s)"
    by (auto simp: dtor_def Let_def reset_is_reset_ptr)
  then show ?thesis using deleted_reset_ptr [of h nullptr s] Dtor by auto
qed

section \<open>Assignment\<close>

text \<open>
  C5. Assignment between two handles of the same type is the compiler-generated one. Two
  sole owners, \<open>2\<close> of the resource \<open>10\<close> and \<open>3\<close> of the resource \<open>20\<close>: after
  \<^verbatim>\<open>2 = 3\<close> both hold \<open>20\<close>, but nothing has been deleted although \<open>2\<close> was
  \<^verbatim>\<open>unique()\<close>, and \<open>2\<close> has not joined the ring of \<open>3\<close>: both links of \<open>2\<close> hold the
  address of \<open>3\<close>, while \<open>3\<close> still points at itself only. Destroying both handles then
  deletes \<open>20\<close> once and \<open>10\<close> never.
\<close>

theorem implicit_assign_copies_fields:
  "unique (raw_ctor 3 20 (raw_ctor 2 10 init)) 2
   \<and> get (raw_ctor 3 20 (raw_ctor 2 10 init)) 2 = 10
   \<and> get (implicit_assign 2 3 (raw_ctor 3 20 (raw_ctor 2 10 init))) 2 = 20
   \<and> get (implicit_assign 2 3 (raw_ctor 3 20 (raw_ctor 2 10 init))) 3 = 20
   \<and> deleted (implicit_assign 2 3 (raw_ctor 3 20 (raw_ctor 2 10 init))) = []
   \<and> lft (mem (implicit_assign 2 3 (raw_ctor 3 20 (raw_ctor 2 10 init)))) 2 = 3
   \<and> rgt (mem (implicit_assign 2 3 (raw_ctor 3 20 (raw_ctor 2 10 init)))) 2 = 3
   \<and> lft (mem (implicit_assign 2 3 (raw_ctor 3 20 (raw_ctor 2 10 init)))) 3 = 3
   \<and> rgt (mem (implicit_assign 2 3 (raw_ctor 3 20 (raw_ctor 2 10 init)))) 3 = 3
   \<and> deleted (dtor 2 (dtor 3 (implicit_assign 2 3 (raw_ctor 3 20 (raw_ctor 2 10 init))))) = [20]"
  by (simp add: eval_defs)

text \<open>
  The body of the template, had it been selected with the call read as
  \<^verbatim>\<open>base.insert_after(rhs.base)\<close>: it never aborts, releases or detaches the left-hand side,
  gives it the right-hand side's reference and makes it the right neighbour of the right-hand
  side.
\<close>

lemma assign_body_joins:
  "\<exists>s'. assign_body lhs rhs s = Some s'
     \<and> get s' lhs = get s rhs \<and> get s' rhs = get s rhs
     \<and> rgt (mem s') rhs = lhs \<and> lft (mem s') lhs = rhs
     \<and> deleted s' = (if unique s lhs then deleted s @ [get s lhs] else deleted s)"
proof -
  define s1 where "s1 = reset_ptr lhs (get s rhs) s"
  have "base_unique (mem s1) lhs"
    using unique_reset_ptr [of lhs "get s rhs" s] by (simp add: unique_def s1_def)
  then obtain m1 where m1: "insert_after lhs rhs (mem s1) = Some m1"
    using insert_after_Some by blast
  then have s': "assign_body lhs rhs s = Some (s1\<lparr>mem := m1\<rparr>)"
    by (simp add: assign_body_def s1_def)
  have g: "get (s1\<lparr>mem := m1\<rparr>) x = get s1 x" for x
    by (simp add: get_def ptr_of_insert_after [OF m1])
  have g1: "get s1 lhs = get s rhs" "get s1 rhs = get s rhs"
    by (simp_all add: s1_def get_reset_ptr)
  have d: "deleted s1 = (if unique s lhs then deleted s @ [get s lhs] else deleted s)"
    by (simp add: s1_def reset_ptr_release reset_ptr_detach)
  have "rgt (mem (s1\<lparr>mem := m1\<rparr>)) rhs = lhs" "lft (mem (s1\<lparr>mem := m1\<rparr>)) lhs = rhs"
    by (simp_all add: lft_insert_after [OF m1] rgt_insert_after [OF m1])
  moreover have "deleted (s1\<lparr>mem := m1\<rparr>) = deleted s1" by simp
  ultimately show ?thesis using s' g g1 d by simp
qed

section \<open>Splice and unsplice\<close>

text \<open>
  C10. Splicing a singleton node \<open>n\<close> after a node \<open>t\<close> whose right neighbour points back
  at it, and erasing \<open>n\<close> again, gives back the store as it was, field for field, with \<open>n\<close>
  singleton; the assertion of \<^verbatim>\<open>insert_after\<close> holds, so the splice does not abort.
\<close>

theorem insert_after_erase_roundtrip:
  assumes "base_unique m n" and "lft m (rgt m t) = t"
  shows "\<exists>m'. insert_after n t m = Some m' \<and> erase n m' = m \<and> base_unique (erase n m') n"
proof -
  from assms(1) obtain m' where m': "insert_after n t m = Some m'"
    using insert_after_Some by blast
  have n: "lft m n = n" "rgt m n = n"
    using assms(1) by (simp_all add: base_unique_def)
  have "erase n m' = m"
  proof (rule heap_eqI)
    fix a show "lft (erase n m') a = lft m a"
      using n assms(2) by (auto simp: lft_erase lft_insert_after [OF m'] rgt_insert_after [OF m'])
  next
    fix a show "rgt (erase n m') a = rgt m a"
      using n assms(2) by (auto simp: rgt_erase lft_insert_after [OF m'] rgt_insert_after [OF m'])
  next
    fix a show "ptr_of (erase n m') a = ptr_of m a"
      by (simp add: ptr_of_erase ptr_of_insert_after [OF m'])
  qed
  with m' show ?thesis by (simp add: base_unique_erase)
qed

theorem insert_after_erase_roundtrip_witness:
  "base_unique example_heap 4 \<and> lft example_heap (rgt example_heap 2) = 2
   \<and> (\<exists>m'. insert_after 4 2 example_heap = Some m' \<and> erase 4 m' = example_heap
        \<and> base_unique (erase 4 m') 4)"
proof -
  have u: "base_unique example_heap 4" by (simp add: base_unique_def)
  have b: "lft example_heap (rgt example_heap 2) = 2" by simp
  show ?thesis using insert_after_erase_roundtrip [OF u b] u b by blast
qed

end
